theory Spec2Isabelle
  imports Main "HOL-Library.AList" "HOL-Library.Sublist"
begin

section \<open>The virtual object manager of SwingSet\<close>

text \<open>
  A shallow embedding of \<^verbatim>\<open>packages/SwingSet/src/kernel/virtualObjectManager.js\<close>.
  JavaScript objects that the code shares and mutates (the inner selves, linked into the
  LRU list through their \<^verbatim>\<open>prev\<close> and \<^verbatim>\<open>next\<close> properties) live in an explicit heap, a
  function from addresses to objects; a reference is an address and \<^verbatim>\<open>undefined\<close> or
  \<^verbatim>\<open>null\<close> is \<open>None\<close>. An exception is a value of type \<open>error\<close>; since a JavaScript
  exception leaves every earlier mutation in place, each operation returns the state it
  reached together with its result or its error.
\<close>

subsection \<open>Errors\<close>

type_synonym key = string
type_synonym addr = nat

datatype error =
    CacheOverflow
  | UnknownKind string
  | AlreadyRegistered string nat
  | NotFound string nat
  | StillInitializing
  | TypeError
  | SyntaxError
  | SlotError
  | CodecError string

text \<open>The message each error carries in the source. \<open>CodecError\<close> is whatever the
  marshalling layer throws, \<open>SlotError\<close> whatever \<^verbatim>\<open>parseVatSlot\<close> throws; \<open>TypeError\<close> and
  \<open>SyntaxError\<close> are raised by the language itself (a property of \<^verbatim>\<open>undefined\<close> or
  \<^verbatim>\<open>null\<close>, \<^verbatim>\<open>JSON.parse\<close>). A weak-store key is printed as \<^verbatim>\<open>[object]\<close>.\<close>

fun message :: "error \<Rightarrow> string" where
  "message CacheOverflow = ''cache overflowed with objects being initialized''"
| "message (UnknownKind kindID) = ''unknown kind '' @ kindID"
| "message (AlreadyRegistered keyName k) = ''\"'' @ keyName @ ''\" already registered: [object]''"
| "message (NotFound keyName k) = ''\"'' @ keyName @ ''\" not found: [object]''"
| "message StillInitializing = ''object is still being initialized''"
| "message TypeError = ''TypeError''"
| "message SyntaxError = ''SyntaxError''"
| "message SlotError = ''invalid vat slot''"
| "message (CodecError msg) = msg"

subsection \<open>Inner selves and the cache state\<close>

text \<open>
  \<open>rawdata\<close> is the JavaScript object held in \<^verbatim>\<open>innerSelf.rawData\<close>: its own string-keyed
  properties in creation order, and whether it carries the symbol-keyed property
  \<^verbatim>\<open>initializationInProgress\<close>.
\<close>

record 'v rawdata =
  props :: "(string \<times> 'v) list"
  initializing :: bool

record 'v innerSelf =
  instanceKey :: key
  rawData :: "'v rawdata option"
  prev :: "addr option"
  "next" :: "addr option"
  wrapData :: bool

text \<open>
  The closure state of \<^verbatim>\<open>makeCache\<close>: \<^verbatim>\<open>size\<close>, \<^verbatim>\<open>lruHead\<close>, \<^verbatim>\<open>lruTail\<close> and \<^verbatim>\<open>liveTable\<close>
  (a JavaScript \<^verbatim>\<open>Map\<close>, kept as an association list in insertion order, so that
  \<^verbatim>\<open>liveTable.size\<close> is its length), the heap of inner selves with the next free address,
  and \<open>world\<close>, the storage that \<^verbatim>\<open>fetch\<close> reads and \<^verbatim>\<open>store\<close> writes.
\<close>

record ('v, 'w) cache =
  size_c :: nat
  liveTable :: "(key \<times> addr) list"
  lruHead :: "addr option"
  lruTail :: "addr option"
  heap :: "addr \<Rightarrow> 'v innerSelf"
  nextAddr :: addr
  world :: 'w

type_synonym ('a, 's) result = "(error + 'a) \<times> 's"

definition makeCache :: "nat \<Rightarrow> 'w \<Rightarrow> ('v, 'w) cache" where
  "makeCache n w =
     \<lparr> size_c = n, liveTable = [], lruHead = None, lruTail = None,
       heap = (\<lambda>_. \<lparr> instanceKey = [], rawData = None, prev = None, next = None,
                      wrapData = False \<rparr>),
       nextAddr = 0, world = w \<rparr>"

text \<open>Assignment to one property of the object at an address.\<close>

definition set_prev :: "addr \<Rightarrow> addr option \<Rightarrow> ('v, 'w) cache \<Rightarrow> ('v, 'w) cache" where
  "set_prev a p c = c\<lparr> heap := (heap c)(a := (heap c a)\<lparr> prev := p \<rparr>) \<rparr>"

definition set_next :: "addr \<Rightarrow> addr option \<Rightarrow> ('v, 'w) cache \<Rightarrow> ('v, 'w) cache" where
  "set_next a n c = c\<lparr> heap := (heap c)(a := (heap c a)\<lparr> next := n \<rparr>) \<rparr>"

definition set_rawData :: "addr \<Rightarrow> 'v rawdata option \<Rightarrow> ('v, 'w) cache \<Rightarrow> ('v, 'w) cache" where
  "set_rawData a d c = c\<lparr> heap := (heap c)(a := (heap c a)\<lparr> rawData := d \<rparr>) \<rparr>"

subsection \<open>The cache operations\<close>

text \<open>
  \<^verbatim>\<open>refresh(innerObj)\<close>, lines 72-91. \<^verbatim>\<open>lruHead.prev = innerObj\<close> raises a TypeError when
  \<^verbatim>\<open>lruHead\<close> is undefined.
\<close>

definition refresh :: "addr \<Rightarrow> ('v, 'w) cache \<Rightarrow> (unit, ('v, 'w) cache) result" where
  "refresh innerObj c =
     (if Some innerObj \<noteq> lruHead c then
        let oldPrev = prev (heap c innerObj);
            oldNext = next (heap c innerObj);
            c1 = (case oldPrev of
                    Some p \<Rightarrow> set_next p oldNext c
                  | None \<Rightarrow> c\<lparr> lruHead := oldNext \<rparr>);
            c2 = (case oldNext of
                    Some n \<Rightarrow> set_prev n oldPrev c1
                  | None \<Rightarrow> c1\<lparr> lruTail := oldPrev \<rparr>);
            c3 = set_prev innerObj None c2;
            c4 = set_next innerObj (lruHead c3) c3
        in (case lruHead c4 of
              None \<Rightarrow> (Inl TypeError, c4)
            | Some h \<Rightarrow> (Inr (), (set_prev h (Some innerObj) c4)\<lparr> lruHead := Some innerObj \<rparr>))
      else (Inr (), c))"

lemma size_c_refresh: "size_c (snd (refresh a c)) = size_c c"
  by (simp add: refresh_def set_prev_def set_next_def Let_def split: option.split)

text \<open>
  The inner loop of \<^verbatim>\<open>makeRoom\<close>, lines 29-38, entered with \<^verbatim>\<open>refreshCount = 1\<close>. The
  guarding \<^verbatim>\<open>if\<close> and the \<^verbatim>\<open>while\<close> test the same condition, so the block is the loop
  alone. Reading \<^verbatim>\<open>lruTail.rawData[initializationInProgress]\<close> raises a TypeError when
  \<^verbatim>\<open>lruTail\<close> is undefined or its \<^verbatim>\<open>rawData\<close> is null.
\<close>

function refreshLoop :: "('v, 'w) cache \<Rightarrow> nat \<Rightarrow> (unit, ('v, 'w) cache) result" where
  "refreshLoop c refreshCount =
     (case lruTail c of
        None \<Rightarrow> (Inl TypeError, c)
      | Some t \<Rightarrow>
          (case rawData (heap c t) of
             None \<Rightarrow> (Inl TypeError, c)
           | Some d \<Rightarrow>
               if initializing d then
                 if refreshCount > size_c c then (Inl CacheOverflow, c)
                 else (case refresh t c of
                         (Inl e, c') \<Rightarrow> (Inl e, c')
                       | (Inr u, c') \<Rightarrow> refreshLoop c' (refreshCount + 1))
               else (Inr (), c)))"
  by pat_completeness auto
termination
  apply (relation "measure (\<lambda>(c, n). Suc (size_c c) - n)")
   apply simp
  subgoal for c refreshCount t d x e c'
    using size_c_refresh [of t c] by (auto dest: sym)
  done

declare refreshLoop.simps [simp del]

text \<open>
  Lines 39-47: the tail leaves the table, is written out, loses its data and is unlinked.
\<close>

definition evictTail ::
  "(key \<Rightarrow> 'v rawdata \<Rightarrow> 'w \<Rightarrow> 'w) \<Rightarrow> addr \<Rightarrow> 'v rawdata \<Rightarrow> ('v, 'w) cache \<Rightarrow> ('v, 'w) cache" where
  "evictTail store t d c =
     (let k = instanceKey (heap c t);
          c1 = c\<lparr> liveTable := AList.delete k (liveTable c) \<rparr>;
          c2 = c1\<lparr> world := store k d (world c1) \<rparr>;
          c3 = set_rawData t None c2;
          c4 = (case prev (heap c3 t) of
                  Some p \<Rightarrow> set_next p None c3
                | None \<Rightarrow> c3\<lparr> lruHead := None \<rparr>)
      in c4\<lparr> lruTail := prev (heap c4 t) \<rparr>)"

text \<open>
  \<^verbatim>\<open>makeRoom()\<close>, lines 27-49. Nothing in the loop bounds the number of rounds on an
  arbitrary heap, so the function is partial: \<open>None\<close> is a loop that never ends.
\<close>

partial_function (option) makeRoom ::
  "(key \<Rightarrow> 'v rawdata \<Rightarrow> 'w \<Rightarrow> 'w) \<Rightarrow> ('v, 'w) cache \<Rightarrow> (unit, ('v, 'w) cache) result option" where
  "makeRoom store c =
     (if length (liveTable c) > size_c c \<and> lruTail c \<noteq> None then
        (case refreshLoop c 1 of
           (Inl e, c1) \<Rightarrow> Some (Inl e, c1)
         | (Inr u, c1) \<Rightarrow>
             (case lruTail c1 of
                None \<Rightarrow> Some (Inl TypeError, c1)
              | Some t \<Rightarrow>
                  (case rawData (heap c1 t) of
                     None \<Rightarrow> Some (Inl TypeError, c1)
                   | Some d \<Rightarrow> makeRoom store (evictTail store t d c1))))
      else Some (Inr (), c))"

declare makeRoom.simps [code]

text \<open>\<^verbatim>\<open>flush()\<close>, lines 50-55. An exception in \<^verbatim>\<open>makeRoom\<close> skips the last assignment.\<close>

definition flush ::
  "(key \<Rightarrow> 'v rawdata \<Rightarrow> 'w \<Rightarrow> 'w) \<Rightarrow> ('v, 'w) cache \<Rightarrow> (unit, ('v, 'w) cache) result option" where
  "flush store c =
     (let saveSize = size_c c in
      case makeRoom store (c\<lparr> size_c := 0 \<rparr>) of
        None \<Rightarrow> None
      | Some (Inl e, c1) \<Rightarrow> Some (Inl e, c1)
      | Some (Inr u, c1) \<Rightarrow> Some (Inr (), c1\<lparr> size_c := saveSize \<rparr>))"

text \<open>\<^verbatim>\<open>remember(innerObj)\<close>, lines 56-71.\<close>

definition remember ::
  "(key \<Rightarrow> 'v rawdata \<Rightarrow> 'w \<Rightarrow> 'w) \<Rightarrow> addr \<Rightarrow> ('v, 'w) cache \<Rightarrow> (unit, ('v, 'w) cache) result option" where
  "remember store innerObj c =
     (if map_of (liveTable c) (instanceKey (heap c innerObj)) \<noteq> None then Some (Inr (), c)
      else
        (case makeRoom store c of
           None \<Rightarrow> None
         | Some (Inl e, c1) \<Rightarrow> Some (Inl e, c1)
         | Some (Inr u, c1) \<Rightarrow>
             (let c2 = c1\<lparr> liveTable :=
                         AList.update (instanceKey (heap c1 innerObj)) innerObj (liveTable c1) \<rparr>;
                  c3 = set_prev innerObj None c2;
                  c4 = set_next innerObj (lruHead c3) c3;
                  c5 = (case lruHead c4 of
                          Some h \<Rightarrow> set_prev h (Some innerObj) c4
                        | None \<Rightarrow> c4);
                  c6 = c5\<lparr> lruHead := Some innerObj \<rparr>;
                  c7 = (if lruTail c6 = None then c6\<lparr> lruTail := Some innerObj \<rparr> else c6)
              in Some (Inr (), c7))))"

text \<open>
  \<^verbatim>\<open>lookup(instanceKey)\<close>, lines 92-101. On a miss the object literal
  \<^verbatim>\<open>{ instanceKey, rawData: fetch(instanceKey) }\<close> is a new object, at the next free address.
\<close>

definition allocInnerSelf :: "key \<Rightarrow> 'v rawdata option \<Rightarrow> ('v, 'w) cache \<Rightarrow> addr \<times> ('v, 'w) cache" where
  "allocInnerSelf k d c =
     (nextAddr c,
      c\<lparr> heap := (heap c)(nextAddr c :=
             \<lparr> instanceKey = k, rawData = d, prev = None, next = None, wrapData = False \<rparr>),
         nextAddr := Suc (nextAddr c) \<rparr>)"

definition lookup ::
  "('w \<Rightarrow> key \<Rightarrow> error + 'v rawdata option) \<Rightarrow> (key \<Rightarrow> 'v rawdata \<Rightarrow> 'w \<Rightarrow> 'w) \<Rightarrow>
     key \<Rightarrow> ('v, 'w) cache \<Rightarrow> (addr, ('v, 'w) cache) result option" where
  "lookup fetch store k c =
     (case map_of (liveTable c) k of
        Some innerObj \<Rightarrow>
          (case refresh innerObj c of
             (Inl e, c1) \<Rightarrow> Some (Inl e, c1)
           | (Inr u, c1) \<Rightarrow> Some (Inr innerObj, c1))
      | None \<Rightarrow>
          (case fetch (world c) k of
             Inl e \<Rightarrow> Some (Inl e, c)
           | Inr d \<Rightarrow>
               (let (innerObj, c1) = allocInnerSelf k d c in
                case remember store innerObj c1 of
                  None \<Rightarrow> None
                | Some (Inl e, c2) \<Rightarrow> Some (Inl e, c2)
                | Some (Inr u, c2) \<Rightarrow> Some (Inr innerObj, c2))))"

subsection \<open>The collaborators of the manager\<close>

text \<open>
  \<^verbatim>\<open>makeVirtualObjectManager\<close> receives \<^verbatim>\<open>syscall\<close>, \<^verbatim>\<open>allocateExportID\<close>, \<^verbatim>\<open>valToSlotTable\<close>
  and the marshaller \<^verbatim>\<open>m\<close>, and uses \<^verbatim>\<open>parseVatSlot\<close>, \<^verbatim>\<open>JSON.stringify\<close> and
  \<^verbatim>\<open>JSON.parse\<close>. None of them is part of the file; they are parameters, gathered in \<open>env\<close>.
  A JavaScript value is of the type \<open>'v\<close>. \<^verbatim>\<open>m.serialize\<close> and \<^verbatim>\<open>m.unserialize\<close> may throw
  (\<open>Inl\<close>, with the message). \<^verbatim>\<open>JSON.stringify\<close> is used at two types: on a \<^verbatim>\<open>rawData\<close>
  object, whose symbol-keyed property it skips and for which it yields a text, and on what
  \<^verbatim>\<open>m.serialize\<close> returned, for which it yields a text or \<^verbatim>\<open>undefined\<close> (as for the value
  \<^verbatim>\<open>undefined\<close> itself) or throws a TypeError. \<^verbatim>\<open>JSON.parse\<close> is used at the same two types,
  and it throws a SyntaxError on a text that is not JSON.
\<close>

datatype 'a json_result = JSON_SyntaxError | JSON_Value 'a

datatype json_text = JSON_TypeError | JSON_Undefined | JSON_Text string

record vatslot =
  type_s :: string
  virtual_s :: bool
  id_s :: nat

record 'v env =
  serialize :: "'v \<Rightarrow> string + 'v"
  unserialize :: "'v \<Rightarrow> string + 'v"
  undefinedValue :: 'v
  stringifyState :: "(string \<times> 'v) list \<Rightarrow> string"
  parseState :: "string \<Rightarrow> (string \<times> 'v) list option json_result"
  stringifyValue :: "'v \<Rightarrow> json_text"
  parseValue :: "string \<Rightarrow> 'v json_result"
  parseVatSlot :: "string \<Rightarrow> vatslot option"

text \<open>
  Modelled from the spec: the vatstore behind \<^verbatim>\<open>syscall\<close>, which is not in the file. It is
  a store from strings to strings in which \<open>get\<close> returns what the last \<open>set\<close> of the key
  stored, and \<^verbatim>\<open>undefined\<close> (\<open>None\<close>) for a key never set; setting a key to \<^verbatim>\<open>undefined\<close>,
  as \<^verbatim>\<open>delete\<close> of a weak store does, stores that.
\<close>

type_synonym vatstore = "string \<Rightarrow> string option"

definition vatstoreGet :: "string \<Rightarrow> vatstore \<Rightarrow> string option" where
  "vatstoreGet k w = w k"

definition vatstoreSet :: "string \<Rightarrow> string option \<Rightarrow> vatstore \<Rightarrow> vatstore" where
  "vatstoreSet k x w = w(k := x)"


text \<open>
  \<^verbatim>\<open>fetch\<close> and \<^verbatim>\<open>store\<close>, lines 121-134. \<^verbatim>\<open>JSON.parse(undefined)\<close> parses the text
  \<^verbatim>\<open>undefined\<close>, which is not JSON: a SyntaxError. A parsed object has no symbol-keyed
  property; the parsed \<^verbatim>\<open>null\<close> is \<open>None\<close>.
\<close>

definition fetch :: "'v env \<Rightarrow> vatstore \<Rightarrow> key \<Rightarrow> error + 'v rawdata option" where
  "fetch env w k =
     (case vatstoreGet k w of
        None \<Rightarrow> Inl SyntaxError
      | Some text \<Rightarrow>
          (case parseState env text of
             JSON_SyntaxError \<Rightarrow> Inl SyntaxError
           | JSON_Value None \<Rightarrow> Inr None
           | JSON_Value (Some ps) \<Rightarrow> Inr (Some \<lparr> props = ps, initializing = False \<rparr>)))"

definition store :: "'v env \<Rightarrow> key \<Rightarrow> 'v rawdata \<Rightarrow> vatstore \<Rightarrow> vatstore" where
  "store env k d w = vatstoreSet k (Some (stringifyState env (props d))) w"

text \<open>The decimal digits of a number, as a template literal prints it.\<close>

definition digitChar :: "nat \<Rightarrow> char" where
  "digitChar d = ''0123456789'' ! (d mod 10)"

function decimal :: "nat \<Rightarrow> string" where
  "decimal n = (if n < 10 then [digitChar n] else decimal (n div 10) @ [digitChar n])"
  by pat_completeness auto
termination
  by (relation "measure id") auto

declare decimal.simps [simp del]

text \<open>The number that a string of decimal digits denotes.\<close>

definition digit :: "char \<Rightarrow> bool" where
  "digit ch = (ch \<in> set ''0123456789'')"

definition undecimal :: "string \<Rightarrow> nat" where
  "undecimal ds = foldl (\<lambda>n ch. 10 * n + (of_char ch - 48)) 0 ds"

text \<open>
  \<^verbatim>\<open>Object.getOwnPropertyNames\<close> lists the names that are array indices first (the
  canonical decimal strings of the numbers below \<open>2^32 - 1\<close>), in ascending numeric order,
  and then the other string names in the order of their creation. \<open>ownProperties\<close> is
  that listing of the properties of an object kept in creation order, with their values.
\<close>

definition arrayIndex :: "string \<Rightarrow> bool" where
  "arrayIndex name =
     (name \<noteq> [] \<and> list_all digit name \<and> (name = ''0'' \<or> hd name \<noteq> CHR ''0'') \<and>
      undecimal name < 4294967295)"

definition ownProperties :: "(string \<times> 'v) list \<Rightarrow> (string \<times> 'v) list" where
  "ownProperties ps =
     sort_key (\<lambda>(name, v). undecimal name) (filter (\<lambda>(name, v). arrayIndex name) ps) @
     filter (\<lambda>(name, v). \<not> arrayIndex name) ps"

definition ownPropertyNames :: "(string \<times> 'v) list \<Rightarrow> string list" where
  "ownPropertyNames ps = map fst (ownProperties ps)"

subsection \<open>The state of the manager\<close>

text \<open>
  What \<^verbatim>\<open>instanceMaker(state)\<close> returns is user code. Of the object it returns the model
  keeps whether it has an \<^verbatim>\<open>initialize\<close> method, with the assignments \<^verbatim>\<open>state.p = v\<close> the
  method performs on its arguments, and whether the maker froze the object itself. The
  user code modelled does not call back into the manager.
\<close>

record ('v, 'a) maker =
  m_initialize :: "('a \<Rightarrow> (string \<times> 'v) list) option"
  m_frozen :: bool

text \<open>
  A representative, with the closure of the \<^verbatim>\<open>makeRepresentative\<close> call that made it: the
  variable \<^verbatim>\<open>innerSelf\<close>, which \<^verbatim>\<open>ensureState\<close> rebinds, and the state object (\<^verbatim>\<open>target\<close>)
  on which \<^verbatim>\<open>wrapData\<close> defines the accessors and which it hardens.
\<close>

record ('v, 'a) representative =
  initialize :: "('a \<Rightarrow> (string \<times> 'v) list) option"
  frozen :: bool
  innerSelfVar :: addr
  accessors :: "string list"
  targetFrozen :: bool

text \<open>The closure of one \<^verbatim>\<open>makeKind\<close> call.\<close>

record ('v, 'a) kind =
  kindID :: string
  nextInstanceID :: nat
  instanceMaker :: "('v, 'a) maker"

text \<open>
  The closure state of \<^verbatim>\<open>makeVirtualObjectManager\<close>. The vatstore is the \<open>world\<close> of the
  cache. \<^verbatim>\<open>kindTable\<close> maps a kind ID to \<^verbatim>\<open>reanimate\<close>, a closure over \<^verbatim>\<open>instanceMaker\<close>
  alone, so the table holds the maker. Objects that can be keys of \<^verbatim>\<open>valToSlotTable\<close> or of
  a weak store (the representatives among them) are named by numbers.
  Modelled from the spec: \<^verbatim>\<open>allocateExportID\<close>, which is not in the file, returns a fresh
  number at each call (\<open>nextExportID\<close>).
\<close>

record ('v, 'a) vom =
  cache :: "('v, vatstore) cache"
  kindTable :: "string \<Rightarrow> ('v, 'a) maker option"
  representatives :: "nat \<Rightarrow> ('v, 'a) representative"
  nextObject :: nat
  valToSlotTable :: "nat \<Rightarrow> string option"
  nextWeakStoreID :: nat
  nextExportID :: nat
  console :: "string list"

definition makeVirtualObjectManager :: "vatstore \<Rightarrow> nat \<Rightarrow> ('v, 'a) vom" where
  "makeVirtualObjectManager w cacheSize =
     \<lparr> cache = makeCache cacheSize w, kindTable = Map.empty,
       representatives = (\<lambda>_. \<lparr> initialize = None, frozen = False, innerSelfVar = 0,
                                   accessors = [], targetFrozen = False \<rparr>),
       nextObject = 0, valToSlotTable = Map.empty, nextWeakStoreID = 1, nextExportID = 1,
       console = [] \<rparr>"

subsection \<open>Representatives\<close>

definition set_wrapData :: "addr \<Rightarrow> bool \<Rightarrow> ('v, 'w) cache \<Rightarrow> ('v, 'w) cache" where
  "set_wrapData a b c = c\<lparr> heap := (heap c)(a := (heap c a)\<lparr> wrapData := b \<rparr>) \<rparr>"

text \<open>
  \<^verbatim>\<open>wrapData(target)\<close>, lines 299-319, for the closure whose variable \<^verbatim>\<open>innerSelf\<close> holds
  the given address. It returns the names for which it has defined accessors on the
  target; the caller records them and that the target is hardened.
  \<^verbatim>\<open>Object.getOwnPropertyNames(null)\<close> raises a TypeError.
\<close>

definition wrapData_f :: "'v rawdata \<Rightarrow> addr \<Rightarrow> ('v, 'w) cache \<Rightarrow> (string list, ('v, 'w) cache) result" where
  "wrapData_f target a c =
     (if initializing target then (Inl StillInitializing, c)
      else
        (case rawData (heap c a) of
           None \<Rightarrow> (Inl TypeError, c)
         | Some d \<Rightarrow> (Inr (ownPropertyNames (props d)), set_wrapData a False c)))"

text \<open>
  \<^verbatim>\<open>makeRepresentative(innerSelf, initializing)\<close>, lines 292-335. The module is strict code,
  so \<^verbatim>\<open>delete representative.initialize\<close> raises a TypeError when the maker returned a
  frozen object that has the method.
\<close>

definition makeRepresentative ::
  "'v env \<Rightarrow> ('v, 'a) maker \<Rightarrow> addr \<Rightarrow> bool \<Rightarrow> ('v, 'a) vom \<Rightarrow> (nat, ('v, 'a) vom) result option" where
  "makeRepresentative env mk a init s =
     (let r = nextObject s;
          made = (if init then
                    (Inr \<lparr> initialize = m_initialize mk, frozen = m_frozen mk, innerSelfVar = a,
                           accessors = [], targetFrozen = False \<rparr>,
                     s\<lparr> cache := set_wrapData a True (cache s) \<rparr>)
                  else
                    (case wrapData_f \<lparr> props = [], initializing = False \<rparr> a (cache s) of
                       (Inl e, c1) \<Rightarrow> (Inl e, s\<lparr> cache := c1 \<rparr>)
                     | (Inr names, c1) \<Rightarrow>
                         if m_initialize mk \<noteq> None \<and> m_frozen mk
                         then (Inl TypeError, s\<lparr> cache := c1 \<rparr>)
                         else (Inr \<lparr> initialize = None, frozen = True, innerSelfVar = a,
                                     accessors = names, targetFrozen = True \<rparr>,
                               s\<lparr> cache := c1 \<rparr>)))
      in case made of
           (Inl e, s1) \<Rightarrow> Some (Inl e, s1)
         | (Inr rep, s1) \<Rightarrow>
             (let s2 = s1\<lparr> representatives := (representatives s1)(r := rep),
                           nextObject := Suc r \<rparr>
              in case remember (store env) a (cache s2) of
                   None \<Rightarrow> None
                 | Some (Inl e, c3) \<Rightarrow> Some (Inl e, s2\<lparr> cache := c3 \<rparr>)
                 | Some (Inr u, c3) \<Rightarrow>
                     Some (Inr r, s2\<lparr> cache := c3,
                                      valToSlotTable := (valToSlotTable s2)
                                        (r \<mapsto> instanceKey (heap c3 a)) \<rparr>)))"

text \<open>\<^verbatim>\<open>reanimate(instanceKey)\<close>, lines 337-339.\<close>

definition reanimate ::
  "'v env \<Rightarrow> ('v, 'a) maker \<Rightarrow> key \<Rightarrow> ('v, 'a) vom \<Rightarrow> (nat, ('v, 'a) vom) result option" where
  "reanimate env mk k s =
     (case lookup (fetch env) (store env) k (cache s) of
        None \<Rightarrow> None
      | Some (Inl e, c1) \<Rightarrow> Some (Inl e, s\<lparr> cache := c1 \<rparr>)
      | Some (Inr a, c1) \<Rightarrow> makeRepresentative env mk a False (s\<lparr> cache := c1 \<rparr>))"

text \<open>\<^verbatim>\<open>makeVirtualObjectRepresentative(vref)\<close>, lines 151-160.\<close>

definition makeVirtualObjectRepresentative ::
  "'v env \<Rightarrow> string \<Rightarrow> ('v, 'a) vom \<Rightarrow> (nat, ('v, 'a) vom) result option" where
  "makeVirtualObjectRepresentative env vref s =
     (case parseVatSlot env vref of
        None \<Rightarrow> Some (Inl SlotError, s)
      | Some slot \<Rightarrow>
          (let kid = decimal (id_s slot) in
           case kindTable s kid of
             Some reanimator \<Rightarrow> reanimate env reanimator vref s
           | None \<Rightarrow> Some (Inl (UnknownKind kid), s)))"

text \<open>
  \<^verbatim>\<open>makeKind(instanceMaker)\<close>, lines 288-376: the kind ID, the counter of instances, and
  the entry of \<^verbatim>\<open>kindTable\<close>. The function it returns is \<open>makeNewInstance\<close> on this closure.
\<close>

definition makeKind :: "('v, 'a) maker \<Rightarrow> ('v, 'a) vom \<Rightarrow> ('v, 'a) kind \<times> ('v, 'a) vom" where
  "makeKind mk s =
     (let kid = decimal (nextExportID s) in
      (\<lparr> kindID = kid, nextInstanceID = 1, instanceMaker = mk \<rparr>,
       s\<lparr> nextExportID := Suc (nextExportID s), kindTable := (kindTable s)(kid \<mapsto> mk) \<rparr>))"

text \<open>
  Until line 370 \<^verbatim>\<open>initialData\<close> and \<^verbatim>\<open>innerSelf.rawData\<close> are one object, unless the cache
  has set \<^verbatim>\<open>innerSelf.rawData\<close> to null in between: a change of \<^verbatim>\<open>initialData\<close> shows in the
  inner self exactly when its \<^verbatim>\<open>rawData\<close> is not null.
\<close>

definition shareInitialData :: "addr \<Rightarrow> 'v rawdata \<Rightarrow> ('v, 'w) cache \<Rightarrow> ('v, 'w) cache" where
  "shareInitialData a d c = (if rawData (heap c a) = None then c else set_rawData a (Some d) c)"

text \<open>
  The loop of lines 362-369 over the own properties of \<^verbatim>\<open>initialData\<close>, given in the
  order of \<^verbatim>\<open>Object.getOwnPropertyNames\<close>: the properties serialized so far, or the name of
  the first property that \<^verbatim>\<open>m.serialize\<close> refuses, with what it threw.
\<close>

fun serializeProps ::
  "'v env \<Rightarrow> (string \<times> 'v) list \<Rightarrow> (string \<times> 'v) list \<Rightarrow> (string \<times> string) + (string \<times> 'v) list" where
  "serializeProps env [] acc = Inr acc"
| "serializeProps env ((p, v) # ps) acc =
     (case serialize env v of
        Inl msg \<Rightarrow> Inl (p, msg)
      | Inr g \<Rightarrow> serializeProps env ps (AList.update p g acc))"

text \<open>
  \<^verbatim>\<open>makeNewInstance(...args)\<close>, lines 342-373. It returns the closure of the kind as well,
  whose counter it has advanced.
\<close>

definition makeNewInstance ::
  "'v env \<Rightarrow> ('v, 'a) kind \<Rightarrow> 'a \<Rightarrow> ('v, 'a) vom \<Rightarrow>
     ((error + nat) \<times> ('v, 'a) kind \<times> ('v, 'a) vom) option" where
  "makeNewInstance env kd args s =
     (let k = ''o+'' @ kindID kd @ ''/'' @ decimal (nextInstanceID kd);
          kd1 = kd\<lparr> nextInstanceID := nextInstanceID kd + 1 \<rparr>;
          initialData = \<lparr> props = [], initializing = True \<rparr>;
          (a, c1) = allocInnerSelf k (Some initialData) (cache s)
      in case makeRepresentative env (instanceMaker kd) a True (s\<lparr> cache := c1 \<rparr>) of
           None \<Rightarrow> None
         | Some (Inl e, s2) \<Rightarrow> Some (Inl e, kd1, s2)
         | Some (Inr r, s2) \<Rightarrow>
             (let rep = representatives s2 r in
              if initialize rep \<noteq> None \<and> frozen rep then Some (Inl TypeError, kd1, s2)
              else
                (let initialData1 =
                       (case initialize rep of
                          None \<Rightarrow> initialData
                        | Some f \<Rightarrow>
                            initialData\<lparr> props :=
                              foldl (\<lambda>ps (p, v). AList.update p v ps) (props initialData) (f args) \<rparr>);
                     initialData2 = initialData1\<lparr> initializing := False \<rparr>;
                     s3 = s2\<lparr> representatives :=
                                (representatives s2)(r := rep\<lparr> initialize := None \<rparr>),
                              cache := shareInitialData a initialData2 (cache s2) \<rparr>
                 in case serializeProps env (ownProperties (props initialData2)) [] of
                      Inl (p, msg) \<Rightarrow>
                        Some (Inl (CodecError msg), kd1,
                              s3\<lparr> console := console s3 @
                                    [''state property '' @ p @ '' is not serializable''] \<rparr>)
                    | Inr raw \<Rightarrow>
                        (let c4 = set_rawData a (Some \<lparr> props = raw, initializing = False \<rparr>)
                                    (cache s3)
                         in if \<not> wrapData (heap c4 a) then Some (Inl TypeError, kd1, s3\<lparr> cache := c4 \<rparr>)
                            else
                              (case wrapData_f initialData2 (innerSelfVar (representatives s3 r)) c4 of
                                 (Inl e, c5) \<Rightarrow> Some (Inl e, kd1, s3\<lparr> cache := c5 \<rparr>)
                               | (Inr names, c5) \<Rightarrow>
                                   Some (Inr r, kd1,
                                         s3\<lparr> cache := c5,
                                             representatives := (representatives s3)
                                               (r := (representatives s3 r)
                                                  \<lparr> accessors := names, targetFrozen := True \<rparr>) \<rparr>))))))"

subsection \<open>The accessors that \<^verbatim>\<open>wrapData\<close> defines\<close>

text \<open>
  \<^verbatim>\<open>ensureState()\<close>, lines 293-297, in the closure of the representative \<open>r\<close>.
\<close>

definition ensureState ::
  "'v env \<Rightarrow> nat \<Rightarrow> ('v, 'a) vom \<Rightarrow> (unit, ('v, 'a) vom) result option" where
  "ensureState env r s =
     (let a = innerSelfVar (representatives s r) in
      if rawData (heap (cache s) a) = None then
        (case lookup (fetch env) (store env) (instanceKey (heap (cache s) a)) (cache s) of
           None \<Rightarrow> None
         | Some (Inl e, c1) \<Rightarrow> Some (Inl e, s\<lparr> cache := c1 \<rparr>)
         | Some (Inr a', c1) \<Rightarrow>
             Some (Inr (), s\<lparr> cache := c1,
                              representatives := (representatives s)
                                (r := (representatives s r)\<lparr> innerSelfVar := a' \<rparr>) \<rparr>))
      else Some (Inr (), s))"

text \<open>
  The \<^verbatim>\<open>get\<close> of lines 306-309 for the property \<open>p\<close>. A property that \<^verbatim>\<open>rawData\<close> lacks
  reads as \<^verbatim>\<open>undefined\<close>; a property of \<^verbatim>\<open>null\<close> raises a TypeError.
\<close>

definition getter ::
  "'v env \<Rightarrow> nat \<Rightarrow> string \<Rightarrow> ('v, 'a) vom \<Rightarrow> ('v, ('v, 'a) vom) result option" where
  "getter env r p s =
     (case ensureState env r s of
        None \<Rightarrow> None
      | Some (Inl e, s1) \<Rightarrow> Some (Inl e, s1)
      | Some (Inr u, s1) \<Rightarrow>
          (case rawData (heap (cache s1) (innerSelfVar (representatives s1 r))) of
             None \<Rightarrow> Some (Inl TypeError, s1)
           | Some d \<Rightarrow>
               (case unserialize env
                       (case map_of (props d) p of None \<Rightarrow> undefinedValue env | Some g \<Rightarrow> g) of
                  Inl msg \<Rightarrow> Some (Inl (CodecError msg), s1)
                | Inr v \<Rightarrow> Some (Inr v, s1))))"

text \<open>The \<^verbatim>\<open>set\<close> of lines 310-314 for the property \<open>p\<close>.\<close>

definition setter ::
  "'v env \<Rightarrow> nat \<Rightarrow> string \<Rightarrow> 'v \<Rightarrow> ('v, 'a) vom \<Rightarrow> (unit, ('v, 'a) vom) result option" where
  "setter env r p v s =
     (case serialize env v of
        Inl msg \<Rightarrow> Some (Inl (CodecError msg), s)
      | Inr serializedValue \<Rightarrow>
          (case ensureState env r s of
             None \<Rightarrow> None
           | Some (Inl e, s1) \<Rightarrow> Some (Inl e, s1)
           | Some (Inr u, s1) \<Rightarrow>
               (let a = innerSelfVar (representatives s1 r) in
                case rawData (heap (cache s1) a) of
                  None \<Rightarrow> Some (Inl TypeError, s1)
                | Some d \<Rightarrow>
                    Some (Inr (),
                          s1\<lparr> cache := set_rawData a
                                (Some (d\<lparr> props := AList.update p serializedValue (props d) \<rparr>))
                                (cache s1) \<rparr>))))"

subsection \<open>Weak stores\<close>

text \<open>
  The closure of one \<^verbatim>\<open>makeWeakStore\<close> call, lines 185-275. \<^verbatim>\<open>backingMap\<close> is a \<^verbatim>\<open>WeakMap\<close>
  from objects to values.
\<close>

record 'v weakStore =
  keyName :: string
  storeID :: nat
  backingMap :: "nat \<Rightarrow> 'v option"


text \<open>
  \<^verbatim>\<open>virtualObjectKey(key)\<close>, lines 201-213: the vatstore key of a virtual object, or
  \<^verbatim>\<open>undefined\<close>. An empty slot string is falsy.
\<close>

definition virtualObjectKey ::
  "'v env \<Rightarrow> 'v weakStore \<Rightarrow> nat \<Rightarrow> ('v, 'a) vom \<Rightarrow> error + string option" where
  "virtualObjectKey env ws k s =
     (case valToSlotTable s k of
        None \<Rightarrow> Inr None
      | Some slotText \<Rightarrow>
          if slotText = [] then Inr None
          else
            (case parseVatSlot env slotText of
               None \<Rightarrow> Inl SlotError
             | Some slot \<Rightarrow>
                 if type_s slot = ''object'' \<and> virtual_s slot
                 then Inr (Some (''ws'' @ decimal (storeID ws) @ ''.'' @ slotText))
                 else Inr None))"

definition vatstore_of :: "('v, 'a) vom \<Rightarrow> vatstore" where
  "vatstore_of s = world (cache s)"

definition vatstore_update :: "(vatstore \<Rightarrow> vatstore) \<Rightarrow> ('v, 'a) vom \<Rightarrow> ('v, 'a) vom" where
  "vatstore_update f s = s\<lparr> cache := (cache s)\<lparr> world := f (world (cache s)) \<rparr> \<rparr>"






section \<open>Properties\<close>

subsection \<open>A cache whose hooks record their calls\<close>

text \<open>
  \<^verbatim>\<open>makeCache\<close> is exported for tests, which pass their own \<^verbatim>\<open>fetch\<close> and \<^verbatim>\<open>store\<close>. Here
  \<^verbatim>\<open>store\<close> appends its arguments to a list, the \<open>world\<close> of the cache, and \<^verbatim>\<open>fetch\<close> answers
  every key with an empty object.
\<close>

definition recordingStore :: "key \<Rightarrow> 'v rawdata \<Rightarrow> (key \<times> 'v rawdata) list \<Rightarrow> (key \<times> 'v rawdata) list" where
  "recordingStore k d w = w @ [(k, d)]"

definition emptyFetch :: "(key \<times> nat rawdata) list \<Rightarrow> key \<Rightarrow> error + nat rawdata option" where
  "emptyFetch w k = Inr (Some \<lparr> props = [], initializing = False \<rparr>)"

text \<open>The table after \<^verbatim>\<open>lookup(a)\<close> and then \<^verbatim>\<open>lookup(b)\<close> on a new cache of the given size.\<close>

definition twoLookups :: "nat \<Rightarrow> key \<Rightarrow> key \<Rightarrow> (nat, (key \<times> nat rawdata) list) cache option" where
  "twoLookups n a b =
     (case lookup emptyFetch recordingStore a (makeCache n []) of
        Some (Inr x, c1) \<Rightarrow>
          (case lookup emptyFetch recordingStore b c1 of
             Some (Inr y, c2) \<Rightarrow> Some c2
           | _ \<Rightarrow> None)
      | _ \<Rightarrow> None)"

subsection \<open>A small environment and a kind of counters\<close>

text \<open>
  Values for the examples: numbers, a function (which the marshaller refuses) and
  \<^verbatim>\<open>undefined\<close>. The marshaller leaves a number as it is; the JSON text of a number is its
  decimal digits, and \<^verbatim>\<open>JSON.stringify\<close> of \<^verbatim>\<open>undefined\<close> or of a function is \<^verbatim>\<open>undefined\<close>. The
  slot parser reads \<^verbatim>\<open>o+N\<close> and \<^verbatim>\<open>o+N/M\<close>, the second being virtual.
\<close>

datatype val = Num nat | Function | Undefined

definition demoParseVatSlot :: "string \<Rightarrow> vatslot option" where
  "demoParseVatSlot text =
     (case text of
        a # b # rest \<Rightarrow>
          if a = CHR ''o'' \<and> b = CHR ''+'' \<and> takeWhile digit rest \<noteq> []
          then Some \<lparr> type_s = ''object'',
                      virtual_s = (take 1 (dropWhile digit rest) = ''/''),
                      id_s = undecimal (takeWhile digit rest) \<rparr>
          else None
      | _ \<Rightarrow> None)"

definition demoEnv :: "val env" where
  "demoEnv =
     \<lparr> serialize = (\<lambda>v. case v of Function \<Rightarrow> Inl ''cannot serialize a function'' | _ \<Rightarrow> Inr v),
       unserialize = Inr,
       undefinedValue = Undefined,
       stringifyState = (\<lambda>ps. if ps = [] then ''{}'' else ''{...}''),
       parseState = (\<lambda>text. if text = ''null'' then JSON_Value None
                             else if text = ''{}'' then JSON_Value (Some [])
                             else JSON_SyntaxError),
       stringifyValue = (\<lambda>v. case v of Num n \<Rightarrow> JSON_Text (decimal n) | _ \<Rightarrow> JSON_Undefined),
       parseValue = (\<lambda>text. if text \<noteq> [] \<and> list_all digit text
                             then JSON_Value (Num (undecimal text))
                             else if text = ''null'' then JSON_Value Undefined
                             else JSON_SyntaxError),
       parseVatSlot = demoParseVatSlot \<rparr>"

text \<open>
  A kind whose \<^verbatim>\<open>initialize(n)\<close> sets \<^verbatim>\<open>state.count = n\<close>, on a new manager with a cache of
  size 3, and the manager after \<^verbatim>\<open>makeNewInstance(7)\<close>.
\<close>

definition counterMaker :: "(val, nat) maker" where
  "counterMaker = \<lparr> m_initialize = Some (\<lambda>n. [(''count'', Num n)]), m_frozen = False \<rparr>"

definition counterKind :: "(val, nat) kind \<times> (val, nat) vom" where
  "counterKind = makeKind counterMaker (makeVirtualObjectManager Map.empty 3)"

definition counterState :: "(val, nat) vom" where
  "counterState =
     (case makeNewInstance demoEnv (fst counterKind) 7 (snd counterKind) of
        Some (res, kd, s) \<Rightarrow> s
      | None \<Rightarrow> snd counterKind)"



subsection \<open>The invariant of the cache\<close>

text \<open>
  The inner selves linked from \<^verbatim>\<open>lruHead\<close> through \<^verbatim>\<open>next\<close> are the list \<open>xs\<close>, head first:
  \<open>nexts h xs e\<close> says that each object of \<open>xs\<close> has the one after it as its \<^verbatim>\<open>next\<close>, and the
  last one has \<open>e\<close>; \<open>prevs h p xs\<close> that the first object has \<open>p\<close> as its \<^verbatim>\<open>prev\<close> and each
  other one the object before it.
\<close>

fun nexts :: "(addr \<Rightarrow> 'v innerSelf) \<Rightarrow> addr list \<Rightarrow> addr option \<Rightarrow> bool" where
  "nexts h [] e = True"
| "nexts h (x # xs) e = (next (h x) = (case xs of [] \<Rightarrow> e | y # _ \<Rightarrow> Some y) \<and> nexts h xs e)"

fun prevs :: "(addr \<Rightarrow> 'v innerSelf) \<Rightarrow> addr option \<Rightarrow> addr list \<Rightarrow> bool" where
  "prevs h p [] = True"
| "prevs h p (x # xs) = (prev (h x) = p \<and> prevs h (Some x) xs)"

text \<open>
  \<open>lruList c xs\<close>: the LRU list of the cache is \<open>xs\<close>, without repetition, \<^verbatim>\<open>lruHead\<close> its first
  and \<^verbatim>\<open>lruTail\<close> its last object. \<open>tableOf c xs\<close>: \<^verbatim>\<open>liveTable\<close> maps exactly the instance keys of
  the objects of \<open>xs\<close>, each to its object. \<open>resident c xs\<close>: every object of \<open>xs\<close> has been
  allocated and holds \<^verbatim>\<open>rawData\<close>. A cache is well formed when the three hold; the new cache
  is, with the empty list, and the operations keep it so.
\<close>

definition lruList :: "('v, 'w) cache \<Rightarrow> addr list \<Rightarrow> bool" where
  "lruList c xs =
     (distinct xs \<and> nexts (heap c) xs None \<and> prevs (heap c) None xs \<and>
      lruHead c = (case xs of [] \<Rightarrow> None | x # _ \<Rightarrow> Some x) \<and>
      lruTail c = (if xs = [] then None else Some (last xs)))"

definition tableOf :: "('v, 'w) cache \<Rightarrow> addr list \<Rightarrow> bool" where
  "tableOf c xs =
     (distinct (map fst (liveTable c)) \<and>
      set (liveTable c) = set (map (\<lambda>a. (instanceKey (heap c a), a)) xs))"

definition resident :: "('v, 'w) cache \<Rightarrow> addr list \<Rightarrow> bool" where
  "resident c xs = list_all (\<lambda>a. rawData (heap c a) \<noteq> None \<and> a < nextAddr c) xs"

definition wellFormed :: "('v, 'w) cache \<Rightarrow> addr list \<Rightarrow> bool" where
  "wellFormed c xs = (lruList c xs \<and> tableOf c xs \<and> resident c xs)"

text \<open>
  An inner self is marked as being initialized when its \<^verbatim>\<open>rawData\<close> carries the symbol;
  \<open>tailInitializing\<close> is that for the last object of a list.
\<close>

definition initializingAt :: "('v, 'w) cache \<Rightarrow> addr \<Rightarrow> bool" where
  "initializingAt c a = (case rawData (heap c a) of None \<Rightarrow> False | Some d \<Rightarrow> initializing d)"

definition tailInitializing :: "('v, 'w) cache \<Rightarrow> addr list \<Rightarrow> bool" where
  "tailInitializing c xs =
     (case rawData (heap c (last xs)) of None \<Rightarrow> False | Some d \<Rightarrow> initializing d)"

text \<open>Two caches that differ in the links of the list only.\<close>

definition sameData :: "('v, 'w) cache \<Rightarrow> ('v, 'w) cache \<Rightarrow> bool" where
  "sameData c c' =
     (liveTable c' = liveTable c \<and> world c' = world c \<and> size_c c' = size_c c \<and>
      nextAddr c' = nextAddr c \<and>
      (\<forall>b. instanceKey (heap c' b) = instanceKey (heap c b) \<and>
           rawData (heap c' b) = rawData (heap c b) \<and>
           wrapData (heap c' b) = wrapData (heap c b)))"

text \<open>
  \<open>written st c ev w\<close> is the storage after the calls \<^verbatim>\<open>store(instanceKey, rawData)\<close>, one for
  each object of \<open>ev\<close> in turn, with the key and the data that the object has in \<open>c\<close>.
  \<open>roomMade st c xs c' xs' ev\<close> relates a well-formed cache \<open>c\<close> of list \<open>xs\<close> to the cache \<open>c'\<close>
  that \<^verbatim>\<open>makeRoom\<close> leaves: \<open>c'\<close> is well formed with the list \<open>xs'\<close>; the objects \<open>ev\<close> have left
  the list, each written once and its \<^verbatim>\<open>rawData\<close> now null, none of them marked as being
  initialized; nothing else has changed but the links.
\<close>

definition written ::
  "(key \<Rightarrow> 'v rawdata \<Rightarrow> 'w \<Rightarrow> 'w) \<Rightarrow> ('v, 'w) cache \<Rightarrow> addr list \<Rightarrow> 'w \<Rightarrow> 'w" where
  "written st c ev w =
     foldl (\<lambda>w a. case rawData (heap c a) of
                     None \<Rightarrow> w
                   | Some d \<Rightarrow> st (instanceKey (heap c a)) d w) w ev"

definition roomMade ::
  "(key \<Rightarrow> 'v rawdata \<Rightarrow> 'w \<Rightarrow> 'w) \<Rightarrow> ('v, 'w) cache \<Rightarrow> addr list \<Rightarrow>
     ('v, 'w) cache \<Rightarrow> addr list \<Rightarrow> addr list \<Rightarrow> bool" where
  "roomMade st c xs c' xs' ev =
     (wellFormed c' xs' \<and> distinct ev \<and> set ev \<inter> set xs' = {} \<and> set ev \<union> set xs' = set xs \<and>
      world c' = written st c ev (world c) \<and> size_c c' = size_c c \<and> nextAddr c' = nextAddr c \<and>
      (\<forall>b. instanceKey (heap c' b) = instanceKey (heap c b) \<and>
           wrapData (heap c' b) = wrapData (heap c b) \<and>
           rawData (heap c' b) = (if b \<in> set ev then None else rawData (heap c b))) \<and>
      list_all (\<lambda>a. \<not> initializingAt c a) ev)"




text \<open>
  Caches for the examples: \<open>demoCache\<close>, of size 3, after \<^verbatim>\<open>lookup('a')\<close> and \<^verbatim>\<open>lookup('b')\<close>;
  \<open>initCache\<close>, of size 1, after \<^verbatim>\<open>remember\<close> of an inner self \<^verbatim>\<open>i\<close> that is being initialized
  and then \<^verbatim>\<open>lookup('b')\<close>. And a kind whose \<^verbatim>\<open>initialize(v)\<close> sets \<^verbatim>\<open>state.count = v\<close>, on a
  new manager.
\<close>

definition demoCache :: "(nat, (key \<times> nat rawdata) list) cache" where
  "demoCache = (case twoLookups 3 ''a'' ''b'' of Some c \<Rightarrow> c | None \<Rightarrow> makeCache 3 [])"





subsection \<open>Which errors an operation can raise\<close>

lemmas makeRoom_induct = makeRoom.raw_induct [rotated 1, consumes 1, case_names step]

lemma refresh_error: "refresh a c = (Inl e, c') \<Longrightarrow> e = TypeError"
  by (auto simp: refresh_def Let_def split: if_splits option.splits)

lemma refreshLoop_error:
  "refreshLoop c n = (Inl e, c') \<Longrightarrow> e = TypeError \<or> e = CacheOverflow"
proof (induction c n rule: refreshLoop.induct)
  case (1 c n)
  from "1.prems" show ?case
    apply (subst (asm) refreshLoop.simps)
    apply (auto split: option.splits if_splits prod.splits sum.splits dest: refresh_error "1.IH")
    done
qed

lemma makeRoom_error_aux:
  "makeRoom st c = Some r \<Longrightarrow> fst r = Inl e \<Longrightarrow> e = TypeError \<or> e = CacheOverflow"
proof (induction st c r rule: makeRoom_induct)
  case (step makeRoom' st c r)
  show ?case
  proof (cases "size_c c < length (liveTable c) \<and> lruTail c \<noteq> None")
    case False
    with step.hyps step.prems show ?thesis by auto
  next
    case True
    obtain res c1 where rl: "refreshLoop c 1 = (res, c1)" by (cases "refreshLoop c 1")
    show ?thesis
    proof (cases res)
      case (Inl e1)
      with step.hyps step.prems True rl refreshLoop_error [of c 1 e1 c1] show ?thesis by auto
    next
      case (Inr u)
      show ?thesis
      proof (cases "lruTail c1")
        case None
        with step.hyps step.prems True rl Inr show ?thesis by auto
      next
        case (Some t)
        show ?thesis
        proof (cases "rawData (heap c1 t)")
          case None
          with step.hyps step.prems True rl Inr Some show ?thesis by auto
        next
          case (Some d)
          with step.hyps True rl Inr \<open>lruTail c1 = Some t\<close>
          have "makeRoom' st (evictTail st t d c1) = Some r" by auto
          from step.IH [OF this step.prems] show ?thesis .
        qed
      qed
    qed
  qed
qed

lemma makeRoom_error:
  "makeRoom st c = Some (Inl e, c') \<Longrightarrow> e = TypeError \<or> e = CacheOverflow"
  by (drule makeRoom_error_aux [where e = e]) simp_all

lemma remember_error:
  "remember st a c = Some (Inl e, c') \<Longrightarrow> e = TypeError \<or> e = CacheOverflow"
  by (auto simp: remember_def Let_def split: if_splits option.splits prod.splits sum.splits
      dest: makeRoom_error)

lemma fetch_error: "fetch env w k = Inl e \<Longrightarrow> e = SyntaxError"
  by (auto simp: fetch_def split: option.splits json_result.splits)

lemma lookup_error:
  "lookup (fetch env) st k c = Some (Inl e, c') \<Longrightarrow>
     e = TypeError \<or> e = CacheOverflow \<or> e = SyntaxError"
  by (auto simp: lookup_def Let_def allocInnerSelf_def
      split: if_splits option.splits prod.splits sum.splits
      dest: remember_error refresh_error fetch_error)

lemma wrapData_f_error:
  "wrapData_f target a c = (Inl e, c') \<Longrightarrow> e = TypeError \<or> e = StillInitializing"
  by (auto simp: wrapData_f_def split: if_splits option.splits)

lemma makeRepresentative_error:
  "makeRepresentative env mk a init s = Some (Inl e, s') \<Longrightarrow>
     e = TypeError \<or> e = CacheOverflow \<or> e = StillInitializing"
  by (auto simp: makeRepresentative_def Let_def
      split: if_splits option.splits prod.splits sum.splits
      dest: remember_error wrapData_f_error)

lemma reanimate_error:
  "reanimate env mk k s = Some (Inl e, s') \<Longrightarrow>
     e = TypeError \<or> e = CacheOverflow \<or> e = StillInitializing \<or> e = SyntaxError"
  by (auto simp: reanimate_def split: option.splits prod.splits sum.splits
      dest: lookup_error makeRepresentative_error)

subsection \<open>Evaluating the examples\<close>

lemmas eval_defs =
  makeNewInstance_def makeKind_def makeVirtualObjectManager_def counterMaker_def
  counterKind_def counterState_def
  makeCache_def allocInnerSelf_def makeRepresentative_def remember_def makeRoom.simps
  set_prev_def set_next_def set_wrapData_def set_rawData_def shareInitialData_def
  wrapData_f_def demoEnv_def decimal.simps digitChar_def Let_def
  ownProperties_def ownPropertyNames_def arrayIndex_def digit_def undecimal_def

subsection \<open>Facts about the weak stores and the small environment\<close>

lemma virtualObjectKey_vatstore_update [simp]:
  "virtualObjectKey env ws k (vatstore_update f s) = virtualObjectKey env ws k s"
  by (simp add: virtualObjectKey_def vatstore_update_def)

lemma virtualObjectKey_backingMap [simp]:
  "virtualObjectKey env (ws\<lparr> backingMap := b \<rparr>) k s = virtualObjectKey env ws k s"
  by (simp add: virtualObjectKey_def split: option.splits)

lemma vatstore_of_update [simp]: "vatstore_of (vatstore_update f s) = f (vatstore_of s)"
  by (simp add: vatstore_of_def vatstore_update_def)




subsection \<open>The cache operations keep the invariant\<close>

lemma nexts_append:
  "nexts h (ys @ zs) e = (nexts h ys (case zs of [] \<Rightarrow> e | z # _ \<Rightarrow> Some z) \<and> nexts h zs e)"
  by (induction ys) (auto split: list.splits)

lemma prevs_append:
  "prevs h p (ys @ zs) = (prevs h p ys \<and> prevs h (if ys = [] then p else Some (last ys)) zs)"
  by (induction ys arbitrary: p) auto

lemma nexts_cong:
  "(\<And>x. x \<in> set xs \<Longrightarrow> next (h' x) = next (h x)) \<Longrightarrow> nexts h' xs e = nexts h xs e"
  by (induction xs) auto

lemma prevs_cong:
  "(\<And>x. x \<in> set xs \<Longrightarrow> prev (h' x) = prev (h x)) \<Longrightarrow> prevs h' p xs = prevs h p xs"
  by (induction xs arbitrary: p) auto

lemma refresh_frame:
  "refresh a c = (r, c') \<Longrightarrow>
     liveTable c' = liveTable c \<and> world c' = world c \<and> size_c c' = size_c c \<and>
     nextAddr c' = nextAddr c \<and>
     (\<forall>b. instanceKey (heap c' b) = instanceKey (heap c b) \<and>
          rawData (heap c' b) = rawData (heap c b) \<and>
          wrapData (heap c' b) = wrapData (heap c b))"
  by (auto simp: refresh_def set_prev_def set_next_def Let_def split: if_splits option.splits)

lemma refresh_head:
  assumes "lruList c (a # xs)"
  shows "refresh a c = (Inr (), c)"
  using assms by (simp add: refresh_def lruList_def)

lemma refresh_fields:
  assumes "lruHead c = Some h0" "a \<noteq> h0" "prev (heap c a) = Some p" "next (heap c a) = nx"
    and "p \<noteq> a" "nx \<noteq> Some a" "nx \<noteq> Some h0"
  shows "\<exists>c'. refresh a c = (Inr (), c') \<and> lruHead c' = Some a \<and>
           lruTail c' = (if nx = None then Some p else lruTail c) \<and>
           (\<forall>x. next (heap c' x) = (if x = a then Some h0 else if x = p then nx else next (heap c x))) \<and>
           (\<forall>x. prev (heap c' x) =
                  (if x = h0 then Some a else if x = a then None
                   else if Some x = nx then Some p else prev (heap c x)))"
proof (cases nx)
  case None
  with assms show ?thesis
    by (auto simp: refresh_def set_prev_def set_next_def Let_def)
next
  case (Some n)
  with assms show ?thesis
    by (auto simp: refresh_def set_prev_def set_next_def Let_def)
qed

lemma refresh_lruList:
  assumes L: "lruList c (ys @ a # zs)" and ne: "ys \<noteq> []"
  shows "\<exists>c'. refresh a c = (Inr (), c') \<and> lruList c' (a # ys @ zs)"
proof -
  let ?h = "heap c"
  define nxa where "nxa = (case zs of [] \<Rightarrow> None | z # _ \<Rightarrow> Some z)"
  obtain y ys' where ys: "ys = y # ys'" using ne by (cases ys) auto
  from L have d: "distinct (ys @ a # zs)"
    and nx: "nexts ?h (ys @ a # zs) None"
    and pv: "prevs ?h None (ys @ a # zs)"
    and tl: "lruTail c = Some (last (a # zs))"
    by (simp_all add: lruList_def)
  from L ys have hd: "lruHead c = Some y" by (simp add: lruList_def)
  have na: "next (?h a) = nxa" using nx by (simp add: nexts_append nxa_def)
  have pa: "prev (?h a) = Some (last ys)" using pv ne by (simp add: prevs_append)
  have side: "a \<noteq> y" "last ys \<noteq> a" "nxa \<noteq> Some a" "nxa \<noteq> Some y"
    using d ne ys by (auto simp: nxa_def split: list.splits)
  from refresh_fields [OF hd side(1) pa na side(2,3,4)]
  obtain c' where r: "refresh a c = (Inr (), c')"
    and hd': "lruHead c' = Some a"
    and tl': "lruTail c' = (if nxa = None then Some (last ys) else lruTail c)"
    and nf: "\<And>x. next (heap c' x) = (if x = a then Some y else if x = last ys then nxa else next (?h x))"
    and pf: "\<And>x. prev (heap c' x) =
                  (if x = y then Some a else if x = a then None
                   else if Some x = nxa then Some (last ys) else prev (?h x))"
    by blast
  let ?h' = "heap c'"
  have lastys: "last ys \<in> set ys" using ne by simp
  have bl: "x \<noteq> last ys" "x \<in> set ys" if "x \<in> set (butlast ys)" for x
  proof -
    have "distinct (butlast ys @ [last ys])" using d ne by simp
    with that show "x \<noteq> last ys" by auto
    from that show "x \<in> set ys" by (rule in_set_butlastD)
  qed
  have n1: "nexts ?h' zs None"
  proof -
    have "nexts ?h zs None" using nx by (simp add: nexts_append)
    moreover have "nexts ?h' zs None = nexts ?h zs None"
      using d lastys by (intro nexts_cong) (auto simp: nf)
    ultimately show ?thesis by simp
  qed
  have n2: "nexts ?h' ys nxa"
  proof -
    have b: "ys = butlast ys @ [last ys]" using ne by simp
    have "nexts ?h ((butlast ys @ [last ys]) @ a # zs) None"
      using nx by (simp only: append_butlast_last_id [OF ne])
    then have "nexts ?h (butlast ys) (Some (last ys))" by (simp add: nexts_append)
    moreover have "nexts ?h' (butlast ys) (Some (last ys)) = nexts ?h (butlast ys) (Some (last ys))"
    proof (intro nexts_cong)
      fix x assume "x \<in> set (butlast ys)"
      with d bl [of x] have "x \<noteq> a" "x \<noteq> last ys" by auto
      then show "next (?h' x) = next (?h x)" by (simp add: nf)
    qed
    moreover have "next (?h' (last ys)) = nxa" using side by (simp add: nf)
    ultimately have "nexts ?h' (butlast ys @ [last ys]) nxa"
      by (simp add: nexts_append)
    then show ?thesis by (simp only: append_butlast_last_id [OF ne])
  qed
  have "nexts ?h' (ys @ zs) None"
    using n1 n2 by (simp add: nexts_append nxa_def)
  then have nexts': "nexts ?h' (a # ys @ zs) None"
    using ys by (simp add: nf)
  have p1: "prevs ?h' (Some y) ys'"
  proof -
    have "prevs ?h (Some y) ys'" using pv ys by (simp add: prevs_append)
    moreover have "prevs ?h' (Some y) ys' = prevs ?h (Some y) ys'"
      using d ys by (intro prevs_cong) (auto simp: pf nxa_def split: list.splits)
    ultimately show ?thesis by simp
  qed
  have p2: "prevs ?h' (Some (last ys)) zs"
  proof (cases zs)
    case Nil
    then show ?thesis by simp
  next
    case (Cons z zs')
    have "prevs ?h (Some z) zs'" using pv Cons by (simp add: prevs_append)
    moreover have "prevs ?h' (Some z) zs' = prevs ?h (Some z) zs'"
      using d ys Cons by (intro prevs_cong) (auto simp: pf nxa_def)
    moreover have "prev (?h' z) = Some (last ys)"
      using d ys Cons by (auto simp: pf nxa_def)
    ultimately show ?thesis using Cons by simp
  qed
  have prevs': "prevs ?h' None (a # ys @ zs)"
    using p1 p2 ys side by (auto simp: prevs_append pf)
  have "lruTail c' = Some (last (a # ys @ zs))"
    using tl tl' ne by (auto simp: nxa_def split: list.splits)
  with r d hd' nexts' prevs' show ?thesis
    by (auto simp: lruList_def)
qed

lemma sameData_refl [simp]: "sameData c c"
  by (simp add: sameData_def)

lemma sameData_trans: "sameData c c1 \<Longrightarrow> sameData c1 c2 \<Longrightarrow> sameData c c2"
  by (simp add: sameData_def)

lemma sameData_refresh: "refresh a c = (r, c') \<Longrightarrow> sameData c c'"
  using refresh_frame [of a c r c'] by (simp add: sameData_def)

lemma tableOf_sameData:
  "sameData c c' \<Longrightarrow> set xs' = set xs \<Longrightarrow> tableOf c xs \<Longrightarrow> tableOf c' xs'"
  by (simp add: sameData_def tableOf_def)

lemma resident_sameData:
  "sameData c c' \<Longrightarrow> set xs' = set xs \<Longrightarrow> resident c xs \<Longrightarrow> resident c' xs'"
  by (simp add: sameData_def resident_def list_all_iff)

lemma refresh_member:
  assumes "lruList c xs" and "a \<in> set xs"
  shows "\<exists>c'. refresh a c = (Inr (), c') \<and> lruList c' (a # remove1 a xs)"
proof -
  from assms(2) obtain ys zs where xs: "xs = ys @ a # zs" and a: "a \<notin> set ys"
    by (auto dest: split_list_first)
  show ?thesis
  proof (cases "ys = []")
    case True
    with assms(1) xs show ?thesis by (simp add: refresh_head)
  next
    case False
    from refresh_lruList [OF assms(1) [unfolded xs] False] a xs show ?thesis
      by (simp add: remove1_append)
  qed
qed

lemma refresh_wellFormed:
  assumes "wellFormed c xs" and "a \<in> set xs"
  shows "\<exists>c'. refresh a c = (Inr (), c') \<and> wellFormed c' (a # remove1 a xs) \<and> sameData c c'"
proof -
  from assms obtain c' where r: "refresh a c = (Inr (), c')" and l: "lruList c' (a # remove1 a xs)"
    using refresh_member [of c xs a] by (auto simp: wellFormed_def)
  have s: "sameData c c'" using r by (rule sameData_refresh)
  from assms(1) have "distinct xs" by (simp add: wellFormed_def lruList_def)
  then have e: "set (a # remove1 a xs) = set xs" using assms(2) by auto
  from assms(1) have "tableOf c' (a # remove1 a xs)" "resident c' (a # remove1 a xs)"
    using tableOf_sameData [OF s e] resident_sameData [OF s e] by (simp_all add: wellFormed_def)
  with r l s show ?thesis by (simp add: wellFormed_def)
qed

lemma resident_member:
  "resident c xs \<Longrightarrow> a \<in> set xs \<Longrightarrow> \<exists>d. rawData (heap c a) = Some d"
  by (auto simp: resident_def list_all_iff)

lemma lruList_tail: "lruList c xs \<Longrightarrow> xs \<noteq> [] \<Longrightarrow> lruTail c = Some (last xs)"
  by (simp add: lruList_def)

lemma remove1_last: "distinct xs \<Longrightarrow> xs \<noteq> [] \<Longrightarrow> remove1 (last xs) xs = butlast xs"
  by (induction xs) (auto simp: remove1_idem)

lemma refreshLoop_wellFormed:
  assumes "wellFormed c xs" and "xs \<noteq> []"
  shows "\<exists>res c' xs'. refreshLoop c n = (res, c') \<and> wellFormed c' xs' \<and> sameData c c' \<and>
           set xs' = set xs \<and> xs' \<noteq> [] \<and>
           (res = Inl CacheOverflow \<and> tailInitializing c' xs' \<or>
            res = Inr () \<and> \<not> tailInitializing c' xs')"
  using assms
proof (induction c n arbitrary: xs rule: refreshLoop.induct)
  case (1 c n)
  let ?t = "last xs"
  from "1.prems" have tl: "lruTail c = Some ?t"
    by (simp add: wellFormed_def lruList_tail)
  from "1.prems" obtain d where d: "rawData (heap c ?t) = Some d"
    using resident_member [of c xs ?t] by (auto simp: wellFormed_def)
  show ?case
  proof (cases "initializing d")
    case False
    with tl d "1.prems" show ?thesis
      by (subst refreshLoop.simps) (auto simp: tailInitializing_def)
  next
    case True
    show ?thesis
    proof (cases "n > size_c c")
      case True
      with \<open>initializing d\<close> tl d "1.prems" show ?thesis
        by (subst refreshLoop.simps) (auto simp: tailInitializing_def)
    next
      case False
      from "1.prems" have dist: "distinct xs" by (simp add: wellFormed_def lruList_def)
      from refresh_wellFormed [OF "1.prems"(1), of ?t] "1.prems"(2)
      obtain c1 where r: "refresh ?t c = (Inr (), c1)"
        and w1: "wellFormed c1 (?t # butlast xs)" and s1: "sameData c c1"
        by (auto simp: remove1_last [OF dist])
      from "1.IH" [OF tl d True False _ _ w1] r
      obtain res c' xs' where
        "refreshLoop c1 (n + 1) = (res, c')" "wellFormed c' xs'" "sameData c1 c'"
        "set xs' = set (?t # butlast xs)" "xs' \<noteq> []"
        "res = Inl CacheOverflow \<and> tailInitializing c' xs' \<or> res = Inr () \<and> \<not> tailInitializing c' xs'"
        by (auto simp del: refreshLoop.simps)
      moreover have "set (?t # butlast xs) = set xs"
        using "1.prems"(2) by (metis append_butlast_last_id list.simps(15) rotate1.simps(2) set_rotate1)
      moreover have "refreshLoop c n = refreshLoop c1 (n + 1)"
        using tl d True False r by (subst refreshLoop.simps) simp
      ultimately show ?thesis
        using s1 by (auto intro: sameData_trans)
    qed
  qed
qed

lemma evictTail_liveTable:
  "liveTable (evictTail st t d c) = AList.delete (instanceKey (heap c t)) (liveTable c)"
  by (cases "prev (heap c t)") (simp_all add: evictTail_def set_rawData_def set_next_def Let_def)

lemma evictTail_world:
  "world (evictTail st t d c) = st (instanceKey (heap c t)) d (world c)"
  by (cases "prev (heap c t)") (simp_all add: evictTail_def set_rawData_def set_next_def Let_def)

lemma evictTail_size_c: "size_c (evictTail st t d c) = size_c c"
  by (cases "prev (heap c t)") (simp_all add: evictTail_def set_rawData_def set_next_def Let_def)

lemma evictTail_nextAddr: "nextAddr (evictTail st t d c) = nextAddr c"
  by (cases "prev (heap c t)") (simp_all add: evictTail_def set_rawData_def set_next_def Let_def)

lemma evictTail_lruTail: "lruTail (evictTail st t d c) = prev (heap c t)"
  by (cases "prev (heap c t)") (auto simp: evictTail_def set_rawData_def set_next_def Let_def)

lemma evictTail_lruHead:
  "lruHead (evictTail st t d c) = (if prev (heap c t) = None then None else lruHead c)"
  by (cases "prev (heap c t)") (simp_all add: evictTail_def set_rawData_def set_next_def Let_def)

lemma evictTail_instanceKey:
  "instanceKey (heap (evictTail st t d c) x) = instanceKey (heap c x)"
  by (cases "prev (heap c t)") (simp_all add: evictTail_def set_rawData_def set_next_def Let_def)

lemma evictTail_wrapData:
  "wrapData (heap (evictTail st t d c) x) = wrapData (heap c x)"
  by (cases "prev (heap c t)") (simp_all add: evictTail_def set_rawData_def set_next_def Let_def)

lemma evictTail_prev:
  "prev (heap (evictTail st t d c) x) = prev (heap c x)"
  by (cases "prev (heap c t)") (simp_all add: evictTail_def set_rawData_def set_next_def Let_def)

lemma evictTail_rawData:
  "rawData (heap (evictTail st t d c) x) = (if x = t then None else rawData (heap c x))"
  by (cases "prev (heap c t)") (simp_all add: evictTail_def set_rawData_def set_next_def Let_def)

lemma evictTail_next:
  "next (heap (evictTail st t d c) x) =
     (if Some x = prev (heap c t) then None else next (heap c x))"
  by (cases "prev (heap c t)") (auto simp: evictTail_def set_rawData_def set_next_def Let_def)

lemma evictTail_other:
  "x \<noteq> t \<Longrightarrow> Some x \<noteq> prev (heap c t) \<Longrightarrow> heap (evictTail st t d c) x = heap c x"
  by (cases "prev (heap c t)") (auto simp: evictTail_def set_rawData_def set_next_def Let_def)

lemmas evictTail_fields =
  evictTail_liveTable evictTail_world evictTail_size_c evictTail_nextAddr evictTail_lruTail
  evictTail_lruHead evictTail_instanceKey evictTail_wrapData evictTail_prev evictTail_rawData
  evictTail_next

lemma tableOf_facts:
  assumes "tableOf c xs"
  shows "set (liveTable c) = (\<lambda>a. (instanceKey (heap c a), a)) ` set xs"
    and "distinct (map fst (liveTable c))"
  using assms unfolding tableOf_def by simp_all

lemma tableOf_member:
  assumes "tableOf c xs" and "a \<in> set xs"
  shows "map_of (liveTable c) (instanceKey (heap c a)) = Some a"
proof -
  note e = tableOf_facts(1) [OF assms(1)] and d = tableOf_facts(2) [OF assms(1)]
  from assms(2) have "(instanceKey (heap c a), a) \<in> (\<lambda>a. (instanceKey (heap c a), a)) ` set xs"
    by (rule imageI)
  then have "(instanceKey (heap c a), a) \<in> set (liveTable c)"
    by (simp only: e)
  with d show ?thesis by (rule map_of_is_SomeI)
qed


lemma tableOf_keys:
  assumes "tableOf c xs" and "a \<in> set xs" and "b \<in> set xs"
    and "instanceKey (heap c a) = instanceKey (heap c b)"
  shows "a = b"
proof -
  have "Some a = map_of (liveTable c) (instanceKey (heap c a))"
    using tableOf_member [OF assms(1,2)] by (rule sym)
  also have "\<dots> = map_of (liveTable c) (instanceKey (heap c b))"
    by (simp only: assms(4))
  also have "\<dots> = Some b"
    by (rule tableOf_member [OF assms(1,3)])
  finally show ?thesis by (rule option.inject [THEN iffD1])
qed

lemma tableOf_length:
  assumes t: "tableOf c xs" and d: "distinct xs"
  shows "length (liveTable c) = length xs"
proof -
  note e = tableOf_facts(1) [OF t]
  from tableOf_facts(2) [OF t] have "distinct (liveTable c)" by (simp add: distinct_map)
  then have "length (liveTable c) = card (set (liveTable c))" by (simp add: distinct_card)
  also have "\<dots> = card ((\<lambda>a. (instanceKey (heap c a), a)) ` set xs)"
    by (simp only: e)
  also have "\<dots> = card (set xs)" by (intro card_image inj_onI) simp
  also have "\<dots> = length xs" using d by (simp add: distinct_card)
  finally show ?thesis .
qed

lemma evictTail_wellFormed:
  assumes w: "wellFormed c xs" and ne: "xs \<noteq> []"
  shows "wellFormed (evictTail st (last xs) d c) (butlast xs)"
proof -
  let ?t = "last xs" and ?c' = "evictTail st (last xs) d c"
  let ?h = "heap c" and ?h' = "heap (evictTail st (last xs) d c)"
  note f = evictTail_fields
  have xs: "xs = butlast xs @ [?t]" using ne by simp
  from w have dist: "distinct xs" and nx: "nexts ?h xs None" and pv: "prevs ?h None xs"
    and hd: "lruHead c = (case xs of [] \<Rightarrow> None | x # _ \<Rightarrow> Some x)"
    and tab: "tableOf c xs" and res: "resident c xs"
    by (simp_all add: wellFormed_def lruList_def)
  have dist': "distinct (butlast xs @ [?t])"
    using dist by (simp only: append_butlast_last_id [OF ne])
  then have notin: "?t \<notin> set (butlast xs)" by simp
  have pt: "prev (?h ?t) = (if butlast xs = [] then None else Some (last (butlast xs)))"
  proof -
    from pv have "prevs ?h None (butlast xs @ [?t])" by (simp only: append_butlast_last_id [OF ne])
    then show ?thesis by (simp add: prevs_append)
  qed
  have nb: "nexts ?h (butlast xs) (Some ?t)"
  proof -
    from nx have "nexts ?h (butlast xs @ [?t]) None" by (simp only: append_butlast_last_id [OF ne])
    then show ?thesis by (simp add: nexts_append)
  qed
  have pb: "prevs ?h None (butlast xs)"
  proof -
    from pv have "prevs ?h None (butlast xs @ [?t])" by (simp only: append_butlast_last_id [OF ne])
    then show ?thesis by (simp add: prevs_append)
  qed
  have "lruList ?c' (butlast xs)"
  proof (cases "butlast xs = []")
    case True
    with pt show ?thesis by (simp add: lruList_def f)
  next
    case False
    let ?p = "last (butlast xs)"
    have bb: "butlast xs = butlast (butlast xs) @ [?p]" using False by simp
    have "distinct (butlast (butlast xs) @ [?p])" using dist' False by simp
    then have pnotin: "?p \<notin> set (butlast (butlast xs))" by simp
    have "nexts ?h (butlast (butlast xs) @ [?p]) (Some ?t)"
      using nb by (simp only: append_butlast_last_id [OF False])
    then have "nexts ?h (butlast (butlast xs)) (Some ?p)" by (simp add: nexts_append)
    moreover have "nexts ?h' (butlast (butlast xs)) (Some ?p) = nexts ?h (butlast (butlast xs)) (Some ?p)"
      using pt False pnotin by (intro nexts_cong) (auto simp: f)
    moreover have "next (?h' ?p) = None" using pt False by (simp add: f)
    ultimately have "nexts ?h' (butlast (butlast xs) @ [?p]) None" by (simp add: nexts_append)
    then have n': "nexts ?h' (butlast xs) None" by (simp only: append_butlast_last_id [OF False])
    have p': "prevs ?h' None (butlast xs)"
      using pb prevs_cong [of "butlast xs" ?h' ?h None] by (simp add: f)
    have h': "lruHead ?c' = (case butlast xs of [] \<Rightarrow> None | x # _ \<Rightarrow> Some x)"
      using pt False hd by (cases xs) (auto simp: f split: if_splits)
    from n' p' h' pt False dist' show ?thesis by (simp add: lruList_def f)
  qed
  moreover have "tableOf ?c' (butlast xs)"
  proof -
    let ?k = "instanceKey (?h ?t)"
    have t_in: "?t \<in> set xs" using ne by simp
    have keys: "instanceKey (?h a) \<noteq> ?k" if "a \<in> set (butlast xs)" for a
      using tableOf_keys [OF tab in_set_butlastD [OF that] t_in] that notin by auto
    have "set (AList.delete ?k (liveTable c)) = {p \<in> set (liveTable c). fst p \<noteq> ?k}"
      by (auto simp: AList.delete_eq)
    also have "\<dots> = (\<lambda>a. (instanceKey (?h a), a)) ` set (butlast xs)"
    proof -
      have "set xs = set (butlast xs @ [?t])"
        by (simp only: append_butlast_last_id [OF ne])
      then have "set xs = insert ?t (set (butlast xs))" by simp
      with tab keys show ?thesis by (auto simp: tableOf_def)
    qed
    finally show ?thesis using tab by (simp add: tableOf_def distinct_delete f)
  qed
  moreover have "resident ?c' (butlast xs)"
    using res notin by (auto simp: resident_def list_all_iff f dest: in_set_butlastD)
  ultimately show ?thesis by (simp add: wellFormed_def)
qed

lemma written_Nil [simp]: "written st c [] w = w"
  by (simp add: written_def)

lemma written_Cons:
  "rawData (heap c a) = Some d \<Longrightarrow>
     written st c (a # ev) w = written st c ev (st (instanceKey (heap c a)) d w)"
  by (simp add: written_def)

lemma written_cong:
  assumes "\<And>a. a \<in> set ev \<Longrightarrow> rawData (heap c' a) = rawData (heap c a) \<and>
                             instanceKey (heap c' a) = instanceKey (heap c a)"
  shows "written st c' ev w = written st c ev w"
  unfolding written_def by (rule foldl_cong) (simp_all add: assms split: option.splits)

lemma roomMade_sameData:
  assumes "wellFormed c1 xs1" and "sameData c c1" and "set xs1 = set xs"
  shows "roomMade st c xs c1 xs1 []"
  using assms by (simp add: roomMade_def sameData_def)

lemma roomMade_evict:
  assumes w1: "wellFormed c1 xs1" and s: "sameData c c1" and e: "set xs1 = set xs"
    and ne: "xs1 \<noteq> []" and d: "rawData (heap c1 (last xs1)) = Some d" and ni: "\<not> initializing d"
    and r: "roomMade st (evictTail st (last xs1) d c1) (butlast xs1) c' xs' ev"
  shows "roomMade st c xs c' xs' (last xs1 # ev)"
proof -
  let ?t = "last xs1" and ?c2 = "evictTail st (last xs1) d c1"
  note f = evictTail_fields
  from w1 have dist: "distinct xs1" by (simp add: wellFormed_def lruList_def)
  have dist': "distinct (butlast xs1 @ [?t])"
    using dist by (simp only: append_butlast_last_id [OF ne])
  then have notin: "?t \<notin> set (butlast xs1)" by simp
  have "set xs1 = set (butlast xs1 @ [?t])" by (simp only: append_butlast_last_id [OF ne])
  then have sx: "set xs = insert ?t (set (butlast xs1))" using e by simp
  from r have w': "wellFormed c' xs'" and dev: "distinct ev"
    and disj: "set ev \<inter> set xs' = {}" and un: "set ev \<union> set xs' = set (butlast xs1)"
    and wo: "world c' = written st ?c2 ev (world ?c2)"
    and sz: "size_c c' = size_c ?c2" and na: "nextAddr c' = nextAddr ?c2"
    and hp: "\<And>b. instanceKey (heap c' b) = instanceKey (heap ?c2 b) \<and>
           wrapData (heap c' b) = wrapData (heap ?c2 b) \<and>
           rawData (heap c' b) = (if b \<in> set ev then None else rawData (heap ?c2 b))"
    and nin: "list_all (\<lambda>a. \<not> initializingAt ?c2 a) ev"
    unfolding roomMade_def by blast+
  from un have sub: "set ev \<subseteq> set (butlast xs1)" "set xs' \<subseteq> set (butlast xs1)" by blast+
  from s have sd: "world c1 = world c" "size_c c1 = size_c c" "nextAddr c1 = nextAddr c"
    "\<And>b. instanceKey (heap c1 b) = instanceKey (heap c b)"
    "\<And>b. rawData (heap c1 b) = rawData (heap c b)"
    "\<And>b. wrapData (heap c1 b) = wrapData (heap c b)"
    by (simp_all add: sameData_def)
  have t_ev: "?t \<notin> set ev" and t_xs': "?t \<notin> set xs'" using sub notin by blast+
  have 1: "distinct (?t # ev)" using dev t_ev by simp
  have 2: "set (?t # ev) \<inter> set xs' = {}" using disj t_xs' by simp
  have 3: "set (?t # ev) \<union> set xs' = set xs" using un sx by auto
  have dc: "rawData (heap c ?t) = Some d" using d sd by simp
  have "written st ?c2 ev (world ?c2) = written st c ev (world ?c2)"
  proof (rule written_cong)
    fix a assume "a \<in> set ev"
    with t_ev have "a \<noteq> ?t" by blast
    then show "rawData (heap ?c2 a) = rawData (heap c a) \<and>
               instanceKey (heap ?c2 a) = instanceKey (heap c a)"
      by (simp add: f sd)
  qed
  then have 4: "world c' = written st c (?t # ev) (world c)"
    using wo dc by (simp add: written_Cons f sd)
  have 5: "size_c c' = size_c c" "nextAddr c' = nextAddr c" using sz na by (simp_all add: f sd)
  have 6: "instanceKey (heap c' b) = instanceKey (heap c b) \<and>
           wrapData (heap c' b) = wrapData (heap c b) \<and>
           rawData (heap c' b) = (if b \<in> set (?t # ev) then None else rawData (heap c b))" for b
    using hp [of b] by (simp add: f sd)
  have 7: "list_all (\<lambda>a. \<not> initializingAt c a) (?t # ev)"
  proof -
    have "\<not> initializingAt c ?t" using dc ni by (simp add: initializingAt_def)
    moreover have "\<not> initializingAt c a" if "a \<in> set ev" for a
    proof -
      from that t_ev have "a \<noteq> ?t" by blast
      then have "initializingAt c a = initializingAt ?c2 a"
        by (simp add: initializingAt_def f sd)
      with nin that show ?thesis by (simp add: list_all_iff)
    qed
    ultimately show ?thesis by (simp add: list_all_iff)
  qed
  from w' 1 2 3 4 5 6 7 show ?thesis unfolding roomMade_def by blast
qed

lemma tailInitializing_eq: "tailInitializing c xs = initializingAt c (last xs)"
  by (simp add: tailInitializing_def initializingAt_def)

lemma makeRoom_wellFormed:
  assumes "wellFormed c xs"
  shows "\<exists>res c' xs' ev. makeRoom st c = Some (res, c') \<and> roomMade st c xs c' xs' ev \<and>
           (res = Inr () \<and> length xs' \<le> size_c c \<or>
            res = Inl CacheOverflow \<and> size_c c < length xs' \<and> tailInitializing c' xs')"
  using assms
proof (induction xs arbitrary: c rule: length_induct)
  case (1 xs)
  note w = \<open>wellFormed c xs\<close>
  from w have dist: "distinct xs" and tab: "tableOf c xs" and lru: "lruList c xs"
    by (simp_all add: wellFormed_def lruList_def)
  have len: "length (liveTable c) = length xs" using tab dist by (rule tableOf_length)
  have tl: "lruTail c = (if xs = [] then None else Some (last xs))"
    using lru by (simp add: lruList_def)
  show ?case
  proof (cases "size_c c < length xs \<and> xs \<noteq> []")
    case False
    then have "makeRoom st c = Some (Inr (), c)"
      using len tl by (subst makeRoom.simps) auto
    moreover have "roomMade st c xs c xs []"
      using w by (intro roomMade_sameData) simp_all
    moreover have "length xs \<le> size_c c" using False by (cases xs) auto
    ultimately show ?thesis by blast
  next
    case True
    then have ne: "xs \<noteq> []" and big: "size_c c < length xs" by simp_all
    from refreshLoop_wellFormed [OF w ne, of 1]
    obtain res1 c1 xs1 where rl: "refreshLoop c 1 = (res1, c1)"
      and w1: "wellFormed c1 xs1" and s1: "sameData c c1"
      and e1: "set xs1 = set xs" and ne1: "xs1 \<noteq> []"
      and alt: "res1 = Inl CacheOverflow \<and> tailInitializing c1 xs1 \<or>
                res1 = Inr () \<and> \<not> tailInitializing c1 xs1"
      by blast
    from w1 have dist1: "distinct xs1" by (simp add: wellFormed_def lruList_def)
    have len1: "length xs1 = length xs"
      using dist dist1 e1 by (metis distinct_card)
    have sz1: "size_c c1 = size_c c" using s1 by (simp add: sameData_def)
    have guard: "size_c c < length (liveTable c) \<and> lruTail c \<noteq> None"
      using big ne len tl by simp
    from alt show ?thesis
    proof
      assume o: "res1 = Inl CacheOverflow \<and> tailInitializing c1 xs1"
      then have "makeRoom st c = Some (Inl CacheOverflow, c1)"
        using guard rl by (subst makeRoom.simps) simp
      moreover have "roomMade st c xs c1 xs1 []"
        using w1 s1 e1 by (rule roomMade_sameData)
      ultimately show ?thesis using o big len1 by auto
    next
      assume ok: "res1 = Inr () \<and> \<not> tailInitializing c1 xs1"
      let ?t = "last xs1"
      have tl1: "lruTail c1 = Some ?t" using w1 ne1 by (simp add: wellFormed_def lruList_tail)
      from w1 ne1 obtain d where d: "rawData (heap c1 ?t) = Some d"
        using resident_member [of c1 xs1 ?t] by (auto simp: wellFormed_def)
      with ok have ni: "\<not> initializing d" by (simp add: tailInitializing_def)
      let ?c2 = "evictTail st ?t d c1"
      have w2: "wellFormed ?c2 (butlast xs1)" using w1 ne1 by (rule evictTail_wellFormed)
      have "length (butlast xs1) < length xs" using ne1 len1 by (cases xs1) auto
      with "1.IH" w2
      obtain res c' xs' ev where mr: "makeRoom st ?c2 = Some (res, c')"
        and rm: "roomMade st ?c2 (butlast xs1) c' xs' ev"
        and fin: "res = Inr () \<and> length xs' \<le> size_c ?c2 \<or>
                  res = Inl CacheOverflow \<and> size_c ?c2 < length xs' \<and> tailInitializing c' xs'"
        by blast
      have "makeRoom st c = makeRoom st ?c2"
        using guard rl ok tl1 d by (subst makeRoom.simps) simp
      with mr have "makeRoom st c = Some (res, c')" by simp
      moreover have "roomMade st c xs c' xs' (?t # ev)"
        using w1 s1 e1 ne1 d ni rm by (rule roomMade_evict)
      moreover have "size_c ?c2 = size_c c" using sz1 by (simp add: evictTail_size_c)
      ultimately show ?thesis using fin by auto
    qed
  qed
qed

lemma wellFormed_size_c [simp]: "wellFormed (c\<lparr> size_c := n \<rparr>) xs = wellFormed c xs"
  by (simp add: wellFormed_def lruList_def tableOf_def resident_def)

lemma wellFormed_Nil:
  assumes "wellFormed c []"
  shows "liveTable c = [] \<and> lruHead c = None \<and> lruTail c = None"
proof -
  from assms have "tableOf c []" "lruList c []" by (simp_all add: wellFormed_def)
  then show ?thesis
    using tableOf_length [of c "[]"] by (simp add: lruList_def)
qed

lemma roomMade_facts:
  assumes "roomMade st c xs c' xs' ev"
  shows "wellFormed c' xs'" "distinct ev" "set ev \<inter> set xs' = {}" "set ev \<union> set xs' = set xs"
    "world c' = written st c ev (world c)" "size_c c' = size_c c" "nextAddr c' = nextAddr c"
    "\<And>b. instanceKey (heap c' b) = instanceKey (heap c b)"
    "\<And>b. wrapData (heap c' b) = wrapData (heap c b)"
    "\<And>b. rawData (heap c' b) = (if b \<in> set ev then None else rawData (heap c b))"
    "list_all (\<lambda>a. \<not> initializingAt c a) ev"
  using assms unfolding roomMade_def by blast+

lemma roomMade_tail:
  assumes r: "roomMade st c xs c' xs' ev" and ne: "xs' \<noteq> []" and t: "tailInitializing c' xs'"
  shows "last xs' \<in> set xs \<and> initializingAt c (last xs')"
proof -
  note f = roomMade_facts [OF r]
  from ne have m: "last xs' \<in> set xs'" by simp
  with f(3) have "last xs' \<notin> set ev" by blast
  then have "rawData (heap c' (last xs')) = rawData (heap c (last xs'))" by (simp add: f(10))
  with t have "initializingAt c (last xs')" by (simp add: tailInitializing_def initializingAt_def)
  moreover from m f(4) have "last xs' \<in> set xs" by blast
  ultimately show ?thesis by simp
qed































lemmas cache_eval =
  twoLookups_def lookup_def emptyFetch_def makeCache_def allocInnerSelf_def
  remember_def makeRoom.simps set_prev_def set_next_def Let_def

lemmas wf_eval = wellFormed_def lruList_def tableOf_def resident_def

lemma demoCache_wellFormed: "wellFormed demoCache [1, 0]"
  by (simp add: demoCache_def cache_eval wf_eval insert_commute)


lemma demo_facts:
  "size_c demoCache = 3" "liveTable demoCache = [(''a'', 0), (''b'', 1)]"
  "world demoCache = []" "nextAddr demoCache = 2"
  "rawData (heap demoCache 0) = Some \<lparr> props = [], initializing = False \<rparr>"
  "rawData (heap demoCache 1) = Some \<lparr> props = [], initializing = False \<rparr>"
  "instanceKey (heap demoCache 0) = ''a''" "instanceKey (heap demoCache 1) = ''b''"
  by (simp_all add: demoCache_def cache_eval)




subsection \<open>The claims\<close>

text \<open>
  C2, at a concrete input. On a cache of size 1, \<^verbatim>\<open>lookup('a')\<close> followed by \<^verbatim>\<open>lookup('b')\<close>
  returns with two entries in the live table, neither marked as initializing and nothing
  stored: \<^verbatim>\<open>remember\<close> makes room before it inserts, and \<^verbatim>\<open>makeRoom\<close> stops as soon as the
  table holds no more than \<^verbatim>\<open>size\<close> entries, so the table grows to \<^verbatim>\<open>size + 1\<close>.
\<close>

theorem lookup_exceeds_size:
  "\<exists>c. twoLookups 1 ''a'' ''b'' = Some c \<and> size_c c = 1 \<and> length (liveTable c) = 2 \<and>
       map (\<lambda>(k, x). map_option initializing (rawData (heap c x))) (liveTable c)
         = [Some False, Some False] \<and>
       world c = []"
  by (simp add: twoLookups_def lookup_def emptyFetch_def makeCache_def allocInnerSelf_def
      remember_def makeRoom.simps set_prev_def set_next_def Let_def)

text \<open>
  C5. The setter serializes the value before anything else: when \<^verbatim>\<open>m.serialize\<close> throws,
  the setter throws the same, and the state it leaves is the state it found, so that
  \<^verbatim>\<open>ensureState\<close> was not called, no \<^verbatim>\<open>rawData\<close> was touched, and a getter that follows
  returns what it would have returned before.
\<close>

theorem setter_serialize_failure:
  assumes "serialize env v = Inl msg"
  shows "setter env r p v s = Some (Inl (CodecError msg), s) \<and>
         (case setter env r p v s of
            None \<Rightarrow> False
          | Some (res, s') \<Rightarrow> getter env r p s' = getter env r p s)"
  using assms by (simp add: setter_def)

theorem setter_serialize_failure_witness:
  "serialize demoEnv Function = Inl ''cannot serialize a function'' \<and>
   map_option fst (getter demoEnv 0 ''count'' counterState) = Some (Inr (Num 7)) \<and>
   (case setter demoEnv 0 ''count'' Function counterState of
      None \<Rightarrow> False
    | Some (res, s') \<Rightarrow>
        res = Inl (CodecError ''cannot serialize a function'') \<and>
        map_option fst (getter demoEnv 0 ''count'' s') = Some (Inr (Num 7)))"
proof -
  have h: "serialize demoEnv Function = Inl ''cannot serialize a function''"
    by (simp add: demoEnv_def)
  have g: "map_option fst (getter demoEnv 0 ''count'' counterState) = Some (Inr (Num 7))"
    by (simp add: getter_def ensureState_def eval_defs)
  from setter_serialize_failure [OF h, of 0 "''count''" counterState] h g
  show ?thesis by simp
qed




text \<open>
  C7, at a concrete input. The representative that \<^verbatim>\<open>makeNewInstance(7)\<close> returns for the
  kind of counters is not frozen: \<^verbatim>\<open>wrapData\<close> hardens the state object, and nothing
  hardens the representative. The representative that \<^verbatim>\<open>reanimate\<close> returns is frozen
  (\<open>reanimate_frozen\<close>).
\<close>

lemma reanimate_frozen:
  "reanimate env mk k s = Some (Inr r, s') \<Longrightarrow> frozen (representatives s' r)"
  by (auto simp: reanimate_def makeRepresentative_def Let_def
      split: option.splits prod.splits sum.splits if_splits)

theorem makeNewInstance_not_frozen:
  "\<exists>kd s. makeNewInstance demoEnv (fst counterKind) 7 (snd counterKind) = Some (Inr 0, kd, s) \<and>
     \<not> frozen (representatives s 0) \<and> targetFrozen (representatives s 0) \<and>
     initialize (representatives s 0) = None \<and>
     accessors (representatives s 0) = [''count''] \<and>
     valToSlotTable s 0 = Some ''o+1/1''"
  by (simp add: eval_defs)

text \<open>
  C9. For a \<^verbatim>\<open>vref\<close> that \<^verbatim>\<open>parseVatSlot\<close> accepts, \<^verbatim>\<open>makeVirtualObjectRepresentative\<close> throws
  an \<open>UnknownKind\<close> error exactly when \<^verbatim>\<open>kindTable\<close> has no entry for the parsed \<^verbatim>\<open>id\<close>; the
  error then names that \<^verbatim>\<open>id\<close> and the state is untouched. Otherwise the result is that of
  the registered reanimator on \<^verbatim>\<open>vref\<close>.
\<close>

theorem unknown_kind_iff:
  assumes "parseVatSlot env vref = Some slot"
  shows "((\<exists>kid s'. makeVirtualObjectRepresentative env vref s = Some (Inl (UnknownKind kid), s'))
            \<longleftrightarrow> kindTable s (decimal (id_s slot)) = None) \<and>
         (kindTable s (decimal (id_s slot)) = None \<longrightarrow>
            makeVirtualObjectRepresentative env vref s
              = Some (Inl (UnknownKind (decimal (id_s slot))), s) \<and>
            message (UnknownKind (decimal (id_s slot))) = ''unknown kind '' @ decimal (id_s slot)) \<and>
         (\<forall>reanimator. kindTable s (decimal (id_s slot)) = Some reanimator \<longrightarrow>
            makeVirtualObjectRepresentative env vref s = reanimate env reanimator vref s)"
proof (cases "kindTable s (decimal (id_s slot))")
  case None
  with assms show ?thesis
    by (simp add: makeVirtualObjectRepresentative_def)
next
  case (Some mk)
  have "makeVirtualObjectRepresentative env vref s = reanimate env mk vref s"
    using assms Some by (simp add: makeVirtualObjectRepresentative_def)
  moreover have "reanimate env mk vref s \<noteq> Some (Inl (UnknownKind kid), s')" for kid s'
    using reanimate_error [of env mk vref s "UnknownKind kid" s'] by auto
  ultimately show ?thesis
    using Some by simp
qed

theorem unknown_kind_iff_witness:
  "parseVatSlot demoEnv ''o+99/1'' = Some \<lparr> type_s = ''object'', virtual_s = True, id_s = 99 \<rparr> \<and>
   kindTable counterState ''99'' = None \<and>
   makeVirtualObjectRepresentative demoEnv ''o+99/1'' counterState
     = Some (Inl (UnknownKind ''99''), counterState) \<and>
   message (UnknownKind ''99'') = ''unknown kind 99''"
proof -
  have p: "parseVatSlot demoEnv ''o+99/1'' = Some \<lparr> type_s = ''object'', virtual_s = True, id_s = 99 \<rparr>"
    by (simp add: demoEnv_def demoParseVatSlot_def digit_def undecimal_def)
  have d: "decimal 99 = ''99''"
    by (simp add: decimal.simps digitChar_def)
  have k: "kindTable counterState ''99'' = None"
    by (simp add: eval_defs)
  from unknown_kind_iff [OF p, of counterState] d k show ?thesis
    using p by simp
qed

text \<open>
  C10. When the live table has no entry for a key and the vatstore returns \<^verbatim>\<open>undefined\<close>
  for it, \<^verbatim>\<open>lookup\<close> throws the SyntaxError of \<^verbatim>\<open>JSON.parse\<close> and leaves the cache as it
  was; so does \<^verbatim>\<open>makeVirtualObjectRepresentative\<close> on such a \<^verbatim>\<open>vref\<close> of a registered kind,
  which returns no representative.
\<close>

theorem lookup_absent_throws:
  assumes "map_of (liveTable (cache s)) vref = None"
      and "vatstoreGet vref (world (cache s)) = None"
  shows "lookup (fetch env) (store env) vref (cache s) = Some (Inl SyntaxError, cache s) \<and>
         (\<forall>slot reanimator. parseVatSlot env vref = Some slot \<longrightarrow>
            kindTable s (decimal (id_s slot)) = Some reanimator \<longrightarrow>
            makeVirtualObjectRepresentative env vref s = Some (Inl SyntaxError, s))"
  using assms
  by (auto simp: lookup_def fetch_def makeVirtualObjectRepresentative_def reanimate_def Let_def)

theorem lookup_absent_throws_witness:
  "map_of (liveTable (cache counterState)) ''o+1/2'' = None \<and>
   vatstoreGet ''o+1/2'' (world (cache counterState)) = None \<and>
   parseVatSlot demoEnv ''o+1/2'' = Some \<lparr> type_s = ''object'', virtual_s = True, id_s = 1 \<rparr> \<and>
   kindTable counterState ''1'' = Some counterMaker \<and>
   makeVirtualObjectRepresentative demoEnv ''o+1/2'' counterState
     = Some (Inl SyntaxError, counterState)"
proof -
  have l: "map_of (liveTable (cache counterState)) ''o+1/2'' = None"
    by (simp add: eval_defs)
  have v: "vatstoreGet ''o+1/2'' (world (cache counterState)) = None"
    by (simp add: vatstoreGet_def eval_defs)
  have p: "parseVatSlot demoEnv ''o+1/2'' = Some \<lparr> type_s = ''object'', virtual_s = True, id_s = 1 \<rparr>"
    by (simp add: demoEnv_def demoParseVatSlot_def digit_def undecimal_def)
  have k: "kindTable counterState (decimal 1) = Some counterMaker"
    by (simp add: eval_defs)
  have d: "decimal 1 = ''1''"
    by (simp add: decimal.simps digitChar_def)
  from lookup_absent_throws [OF l v, of demoEnv] p k d l v show ?thesis
    by simp
qed





text \<open>
  C4. On a well-formed cache none of whose resident inner selves is marked as being
  initialized, for any \<^verbatim>\<open>store\<close>, \<^verbatim>\<open>flush\<close> returns: the live table and the list are empty,
  \<^verbatim>\<open>size\<close> is what it was, \<^verbatim>\<open>store\<close> has been called once for each inner self that was
  resident, with its key and its data, and the \<^verbatim>\<open>rawData\<close> of each is null.
\<close>

theorem flush_stores_all:
  assumes w: "wellFormed c xs" and plain: "list_all (\<lambda>a. \<not> initializingAt c a) xs"
  shows "\<exists>c' ev. flush st c = Some (Inr (), c') \<and> wellFormed c' [] \<and>
           liveTable c' = [] \<and> lruHead c' = None \<and> lruTail c' = None \<and>
           size_c c' = size_c c \<and>
           distinct ev \<and> set ev = set xs \<and>
           world c' = written st c ev (world c) \<and>
           list_all (\<lambda>a. rawData (heap c a) \<noteq> None \<and> rawData (heap c' a) = None) xs"
proof -
  let ?c0 = "c\<lparr> size_c := 0 \<rparr>"
  from w have w0: "wellFormed ?c0 xs" by simp
  from makeRoom_wellFormed [OF w0, of st]
  obtain res c1 xs' ev where mr: "makeRoom st ?c0 = Some (res, c1)"
    and rm: "roomMade st ?c0 xs c1 xs' ev"
    and fin: "res = Inr () \<and> length xs' \<le> size_c ?c0 \<or>
              res = Inl CacheOverflow \<and> size_c ?c0 < length xs' \<and> tailInitializing c1 xs'"
    by blast
  note f = roomMade_facts [OF rm]
  have no: "\<not> (res = Inl CacheOverflow \<and> size_c ?c0 < length xs' \<and> tailInitializing c1 xs')"
  proof
    assume o: "res = Inl CacheOverflow \<and> size_c ?c0 < length xs' \<and> tailInitializing c1 xs'"
    then have "xs' \<noteq> []" by auto
    from roomMade_tail [OF rm this] o
    have "last xs' \<in> set xs" "initializingAt ?c0 (last xs')" by simp_all
    with plain show False by (simp add: list_all_iff initializingAt_def)
  qed
  with fin have res: "res = Inr ()" and e: "xs' = []" by auto
  from f(1) e have w1: "wellFormed c1 []" by simp
  then have nil: "liveTable c1 = [] \<and> lruHead c1 = None \<and> lruTail c1 = None"
    by (simp add: wellFormed_Nil)
  from f(4) e have ev: "set ev = set xs" by simp
  have fl: "flush st c = Some (Inr (), c1\<lparr> size_c := size_c c \<rparr>)"
    using mr res by (simp add: flush_def)
  have "written st ?c0 ev (world c) = written st c ev (world c)"
    by (rule written_cong) simp
  with f(5) have wr: "world c1 = written st c ev (world c)" by simp
  have gone: "list_all (\<lambda>a. rawData (heap c a) \<noteq> None \<and> rawData (heap c1 a) = None) xs"
    using w ev f(10) by (simp add: list_all_iff wellFormed_def resident_def)
  from fl w1 nil ev wr gone f(2) show ?thesis
    by (intro exI [of _ "c1\<lparr> size_c := size_c c \<rparr>"] exI [of _ ev]) simp
qed

theorem flush_stores_all_witness:
  "wellFormed demoCache [1, 0] \<and>
   list_all (\<lambda>a. \<not> initializingAt demoCache a) [1, 0] \<and>
   (\<exists>c' ev. flush recordingStore demoCache = Some (Inr (), c') \<and>
      liveTable c' = [] \<and> size_c c' = 3 \<and> set ev = {Suc 0, 0} \<and>
      rawData (heap c' 0) = None \<and> rawData (heap c' 1) = None) \<and>
   map_option (\<lambda>(res, c'). (res, liveTable c', size_c c', world c'))
     (flush recordingStore demoCache)
     = Some (Inr (), [], 3, [(''a'', \<lparr> props = [], initializing = False \<rparr>),
                             (''b'', \<lparr> props = [], initializing = False \<rparr>)])"
proof -
  have p: "list_all (\<lambda>a. \<not> initializingAt demoCache a) [1, 0]"
    by (simp add: initializingAt_def demo_facts demo_facts [unfolded One_nat_def])
  from flush_stores_all [OF demoCache_wellFormed p, of recordingStore]
  have 1: "\<exists>c' ev. flush recordingStore demoCache = Some (Inr (), c') \<and>
      liveTable c' = [] \<and> size_c c' = 3 \<and> set ev = {Suc 0, 0} \<and>
      rawData (heap c' 0) = None \<and> rawData (heap c' 1) = None"
    by (auto simp: demo_facts)
  have 2: "map_option (\<lambda>(res, c'). (res, liveTable c', size_c c', world c'))
     (flush recordingStore demoCache)
     = Some (Inr (), [], 3, [(''a'', \<lparr> props = [], initializing = False \<rparr>),
                             (''b'', \<lparr> props = [], initializing = False \<rparr>)])"
    by (simp add: flush_def demoCache_def cache_eval refreshLoop.simps evictTail_def
        set_rawData_def recordingStore_def)
  from demoCache_wellFormed p 1 2 show ?thesis by simp
qed




end
